theory Spec2Isabelle
  imports Complex_Main "HOL-Library.Log_Nat"
begin

section \<open>Strings and regular expressions\<close>

text \<open>
  A JavaScript string is modelled as a \<^typ>\<open>string\<close>, one \<^typ>\<open>char\<close> per code unit.
  The three regular expressions of \<^verbatim>\<open>UserForm.tsx\<close> use character classes, concatenation
  and the quantifiers \<^verbatim>\<open>+\<close>, \<^verbatim>\<open>{n}\<close> and \<^verbatim>\<open>{n,}\<close> only, and \<^verbatim>\<open>test\<close> is called on
  patterns anchored with \<^verbatim>\<open>^\<close> and \<^verbatim>\<open>$\<close> (no flag), which is a match of the whole string.
  The patterns are values of a small datatype, run by a matcher that consumes the
  string one character at a time.
\<close>

datatype regex =
    NoMatch
  | Empty
  | Class "char \<Rightarrow> bool"
  | Concat regex regex
  | Choice regex regex
  | Repeat regex

fun accepts_empty :: "regex \<Rightarrow> bool" where
  "accepts_empty NoMatch = False"
| "accepts_empty Empty = True"
| "accepts_empty (Class P) = False"
| "accepts_empty (Concat r s) = (accepts_empty r \<and> accepts_empty s)"
| "accepts_empty (Choice r s) = (accepts_empty r \<or> accepts_empty s)"
| "accepts_empty (Repeat r) = True"

fun after :: "regex \<Rightarrow> char \<Rightarrow> regex" where
  "after NoMatch c = NoMatch"
| "after Empty c = NoMatch"
| "after (Class P) c = (if P c then Empty else NoMatch)"
| "after (Concat r s) c =
     (if accepts_empty r then Choice (Concat (after r c) s) (after s c)
      else Concat (after r c) s)"
| "after (Choice r s) c = Choice (after r c) (after s c)"
| "after (Repeat r) c = Concat (after r c) (Repeat r)"

definition test :: "regex \<Rightarrow> string \<Rightarrow> bool" where
  \<comment> \<open>\<^verbatim>\<open>/^r$/.test(s)\<close>\<close>
  "test r s = accepts_empty (foldl after r s)"

fun exactly :: "nat \<Rightarrow> regex \<Rightarrow> regex" where
  \<comment> \<open>\<^verbatim>\<open>r{n}\<close>\<close>
  "exactly 0 r = Empty"
| "exactly (Suc n) r = Concat r (exactly n r)"

definition at_least :: "nat \<Rightarrow> regex \<Rightarrow> regex" where
  \<comment> \<open>\<^verbatim>\<open>r{n,}\<close>; \<^verbatim>\<open>r+\<close> is \<^verbatim>\<open>r{1,}\<close>\<close>
  "at_least n r = Concat (exactly n r) (Repeat r)"

definition lit :: "char \<Rightarrow> regex" where
  "lit c = Class (\<lambda>d. d = c)"

definition is_digit :: "char \<Rightarrow> bool" where
  \<comment> \<open>\<^verbatim>\<open>\d\<close>, that is \<^verbatim>\<open>[0-9]\<close>\<close>
  "is_digit c = (48 \<le> (of_char c :: nat) \<and> (of_char c :: nat) \<le> 57)"

definition is_lower :: "char \<Rightarrow> bool" where
  \<comment> \<open>\<^verbatim>\<open>[a-z]\<close>\<close>
  "is_lower c = (97 \<le> (of_char c :: nat) \<and> (of_char c :: nat) \<le> 122)"

definition is_upper :: "char \<Rightarrow> bool" where
  \<comment> \<open>\<^verbatim>\<open>[A-Z]\<close>\<close>
  "is_upper c = (65 \<le> (of_char c :: nat) \<and> (of_char c :: nat) \<le> 90)"

definition is_alpha :: "char \<Rightarrow> bool" where
  \<comment> \<open>\<^verbatim>\<open>[a-zA-Z]\<close>\<close>
  "is_alpha c = (is_lower c \<or> is_upper c)"

definition is_local_char :: "char \<Rightarrow> bool" where
  \<comment> \<open>\<^verbatim>\<open>[a-zA-Z0-9._%+-]\<close>\<close>
  "is_local_char c = (is_alpha c \<or> is_digit c \<or> c \<in> set ''._%+-'')"

definition is_domain_char :: "char \<Rightarrow> bool" where
  \<comment> \<open>\<^verbatim>\<open>[a-zA-Z0-9.-]\<close>\<close>
  "is_domain_char c = (is_alpha c \<or> is_digit c \<or> c \<in> set ''.-'')"

section \<open>The user-profile form (UserForm.tsx)\<close>

definition emailRegex :: regex where
  \<comment> \<open>\<^verbatim>\<open>/^[a-zA-Z0-9._%+-]+@[a-zA-Z0-9.-]+\.[a-zA-Z]{2,}$/\<close>\<close>
  "emailRegex =
     Concat (at_least 1 (Class is_local_char))
    (Concat (lit CHR ''@'')
    (Concat (at_least 1 (Class is_domain_char))
    (Concat (lit CHR ''.'')
            (at_least 2 (Class is_alpha)))))"

definition einRegex :: regex where
  \<comment> \<open>\<^verbatim>\<open>/^\d{2}-\d{7}$/\<close>\<close>
  "einRegex =
     Concat (exactly 2 (Class is_digit))
    (Concat (lit CHR ''-'')
            (exactly 7 (Class is_digit)))"

definition slice :: "nat \<Rightarrow> nat \<Rightarrow> string \<Rightarrow> string" where
  \<comment> \<open>\<^verbatim>\<open>s.slice(i, j)\<close> for indices that are not negative\<close>
  "slice i j s = drop i (take j s)"

definition formatEIN :: "string \<Rightarrow> string" where
  "formatEIN v =
     (let digits = filter is_digit v
      in if length digits \<le> 2 then digits
         else slice 0 2 digits @ ''-'' @ slice 2 9 digits)"

record form_data =
  \<comment> \<open>the four inputs of the form, all strings, initially empty\<close>
  f_name :: string
  f_email :: string
  f_organization :: string
  f_ein :: string

record user_form =
  \<comment> \<open>the three \<^verbatim>\<open>useState\<close> cells of the component\<close>
  formData :: form_data
  emailError :: string
  einError :: string

definition initial_form :: user_form where
  "initial_form =
     \<lparr>formData = \<lparr>f_name = '''', f_email = '''', f_organization = '''', f_ein = ''''\<rparr>,
      emailError = '''', einError = ''''\<rparr>"

definition validateEmail :: "string \<Rightarrow> user_form \<Rightarrow> bool \<times> user_form" where
  "validateEmail e st =
     (if e = '''' then (False, st\<lparr>emailError := ''Email is required''\<rparr>)
      else if \<not> test emailRegex e
        then (False, st\<lparr>emailError := ''Please enter a valid email address''\<rparr>)
      else (True, st\<lparr>emailError := ''''\<rparr>))"

definition validateEIN :: "string \<Rightarrow> user_form \<Rightarrow> bool \<times> user_form" where
  "validateEIN e st =
     (if e = '''' then (True, st\<lparr>einError := ''''\<rparr>)
      else if \<not> test einRegex e
        then (False, st\<lparr>einError := ''EIN must be in format: XX-XXXXXXX''\<rparr>)
      else (True, st\<lparr>einError := ''''\<rparr>))"

definition or_undefined :: "string option \<Rightarrow> string option" where
  \<comment> \<open>\<^verbatim>\<open>v || undefined\<close>: the empty string and \<^verbatim>\<open>undefined\<close> are falsy\<close>
  "or_undefined v = (case v of None \<Rightarrow> None | Some s \<Rightarrow> if s = '''' then None else Some s)"

record profile =
  \<comment> \<open>\<^verbatim>\<open>Omit<User, 'id' | 'created_at' | 'app_ids'>\<close>, the payload of the form\<close>
  email :: string
  name :: string
  organization :: "string option"
  ein :: "string option"

definition handleSubmit :: "user_form \<Rightarrow> user_form \<times> profile option" where
  \<comment> \<open>the second component is the argument of \<^verbatim>\<open>onSubmit\<close>, \<open>None\<close> when it is not called;
      \<^verbatim>\<open>||\<close> does not evaluate \<^verbatim>\<open>validateEIN\<close> once \<^verbatim>\<open>validateEmail\<close> has failed\<close>
  "handleSubmit st =
     (case validateEmail (f_email (formData st)) st of
        (False, st1) \<Rightarrow> (st1, None)
      | (True, st1) \<Rightarrow>
          (case validateEIN (f_ein (formData st)) st1 of
             (False, st2) \<Rightarrow> (st2, None)
           | (True, st2) \<Rightarrow>
               (st2, Some \<lparr>email = f_email (formData st), name = f_name (formData st),
                           organization = Some (f_organization (formData st)),
                           ein = or_undefined (Some (f_ein (formData st)))\<rparr>)))"

definition set_field :: "string \<Rightarrow> string \<Rightarrow> form_data \<Rightarrow> form_data" where
  \<comment> \<open>\<^verbatim>\<open>{ ...prev, [name]: value }\<close>; the form has inputs of these four names only, and a
      property of another name is read nowhere\<close>
  "set_field n v fd =
     (if n = ''name'' then fd\<lparr>f_name := v\<rparr>
      else if n = ''email'' then fd\<lparr>f_email := v\<rparr>
      else if n = ''organization'' then fd\<lparr>f_organization := v\<rparr>
      else if n = ''ein'' then fd\<lparr>f_ein := v\<rparr>
      else fd)"

definition handleChange :: "string \<Rightarrow> string \<Rightarrow> user_form \<Rightarrow> user_form" where
  \<comment> \<open>\<^verbatim>\<open>e.target.name\<close> and \<^verbatim>\<open>e.target.value\<close> are the first two arguments\<close>
  "handleChange n v st =
     (if n = ''ein'' then
        (let formattedEIN = formatEIN v;
             st1 = st\<lparr>formData := set_field n formattedEIN (formData st)\<rparr>
         in snd (validateEIN formattedEIN st1))
      else
        (let st1 = st\<lparr>formData := set_field n v (formData st)\<rparr>
         in if n = ''email'' then snd (validateEmail v st1) else st1))"

section \<open>The persistence wrapper (supabase.ts)\<close>

text \<open>
  The Supabase client is outside the repository. It is modelled as a \<open>users\<close> table with
  the row semantics of the calls the wrapper makes (an exact-match select read with
  \<^verbatim>\<open>maybeSingle\<close>, an update by \<open>id\<close> and an insert, both read back with \<^verbatim>\<open>single\<close>), a
  list of the requests issued so far, and a backend that decides which request fails
  and supplies what only the server knows: the generated \<open>id\<close>, the clock, and the row a
  successful upsert into \<open>visits\<close> answers with. A failed request is an error reply or a
  rejected promise; the wrapper throws the first and the second is thrown by
  \<^verbatim>\<open>await\<close>, both inside the same \<^verbatim>\<open>try\<close>, so one \<open>fault\<close> stands for both.
\<close>

definition QR_CODE_GENERATOR :: string where
  "QR_CODE_GENERATOR = ''qr-gen-v1''"

record user = profile +
  id_user :: string
  app_ids :: "string list option"
  created_at :: string

record visit =
  id_visit :: string
  user_id :: string
  app_id :: string
  visit_count :: int
  last_visit :: string
  created_at_visit :: string

datatype store_error = StoreError string

record user_patch =
  \<comment> \<open>the object given to \<^verbatim>\<open>update\<close>: \<open>None\<close> is a key that is not there\<close>
  patch_app_ids :: "string list"
  patch_name :: "string option"
  patch_organization :: "string option"
  patch_ein :: "string option"

datatype request =
    SelectUserByEmail string
  | UpdateUserById string user_patch
  | InsertUser profile "string list"
  | UpsertVisit string string int string

record backend =
  fault :: "nat \<Rightarrow> store_error option"
  new_id :: "nat \<Rightarrow> string"
  clock :: "nat \<Rightarrow> string"
  upserted :: "nat \<Rightarrow> visit"

record store =
  users :: "user list"
  requests :: "request list"

definition issue :: "request \<Rightarrow> store \<Rightarrow> store" where
  "issue r st = st\<lparr>requests := requests st @ [r]\<rparr>"

definition not_single :: store_error where
  "not_single = StoreError ''JSON object requested, multiple (or no) rows returned''"

definition select_user_by_email ::
  "backend \<Rightarrow> string \<Rightarrow> store \<Rightarrow> (store_error + user option) \<times> store" where
  \<comment> \<open>\<^verbatim>\<open>from('users').select('*').eq('email', e).maybeSingle()\<close>\<close>
  "select_user_by_email b e st =
     (let st1 = issue (SelectUserByEmail e) st
      in case fault b (length (requests st)) of
           Some err \<Rightarrow> (Inl err, st1)
         | None \<Rightarrow>
             (case filter (\<lambda>u. email u = e) (users st) of
                [] \<Rightarrow> (Inr None, st1)
              | [u] \<Rightarrow> (Inr (Some u), st1)
              | _ \<Rightarrow> (Inl not_single, st1)))"

definition apply_patch :: "user_patch \<Rightarrow> user \<Rightarrow> user" where
  "apply_patch p u =
     u\<lparr>app_ids := Some (patch_app_ids p),
       name := (case patch_name p of None \<Rightarrow> name u | Some n \<Rightarrow> n),
       organization := (case patch_organization p of None \<Rightarrow> organization u | Some v \<Rightarrow> Some v),
       ein := (case patch_ein p of None \<Rightarrow> ein u | Some v \<Rightarrow> Some v)\<rparr>"

definition update_user_by_id ::
  "backend \<Rightarrow> string \<Rightarrow> user_patch \<Rightarrow> store \<Rightarrow> (store_error + user) \<times> store" where
  \<comment> \<open>\<^verbatim>\<open>from('users').update(p).eq('id', i).select().single()\<close>\<close>
  "update_user_by_id b i p st =
     (let st1 = issue (UpdateUserById i p) st
      in case fault b (length (requests st)) of
           Some err \<Rightarrow> (Inl err, st1)
         | None \<Rightarrow>
             (case filter (\<lambda>u. id_user u = i) (users st) of
                [u] \<Rightarrow>
                  (Inr (apply_patch p u),
                   st1\<lparr>users := map (\<lambda>r. if id_user r = i then apply_patch p r else r) (users st)\<rparr>)
              | _ \<Rightarrow> (Inl not_single, st1)))"

definition insert_user ::
  "backend \<Rightarrow> profile \<Rightarrow> string list \<Rightarrow> store \<Rightarrow> (store_error + user) \<times> store" where
  \<comment> \<open>\<^verbatim>\<open>from('users').insert([{ ...row, app_ids }]).select().single()\<close>\<close>
  "insert_user b row apps st =
     (let n = length (requests st);
          st1 = issue (InsertUser row apps) st
      in case fault b n of
           Some err \<Rightarrow> (Inl err, st1)
         | None \<Rightarrow>
             (let u = \<lparr>email = email row, name = name row, organization = organization row,
                       ein = ein row, id_user = new_id b n, app_ids = Some apps,
                       created_at = clock b n\<rparr>
              in (Inr u, st1\<lparr>users := users st @ [u]\<rparr>)))"

definition upsert_visit ::
  "backend \<Rightarrow> string \<Rightarrow> string \<Rightarrow> int \<Rightarrow> string \<Rightarrow> store \<Rightarrow> (store_error + visit) \<times> store" where
  \<comment> \<open>\<^verbatim>\<open>from('visits').upsert({...}, { onConflict: 'user_id,app_id' }).select(...).single()\<close>\<close>
  "upsert_visit b uid aid cnt ts st =
     (let n = length (requests st);
          st1 = issue (UpsertVisit uid aid cnt ts) st
      in case fault b n of
           Some err \<Rightarrow> (Inl err, st1)
         | None \<Rightarrow> (Inr (upserted b n), st1))"

definition updateVisit ::
  "backend \<Rightarrow> string \<Rightarrow> string \<Rightarrow> store \<Rightarrow> (store_error + visit option) \<times> store" where
  \<comment> \<open>\<open>Inl\<close> would be a rejected promise, \<open>Inr None\<close> is \<^verbatim>\<open>null\<close>\<close>
  "updateVisit b userId appId st =
     (if userId = '''' \<or> appId = '''' then (Inr None, st)
      else
        (let now = clock b (length (requests st))
         in case upsert_visit b userId appId 1 now st of
              (Inl err, st1) \<Rightarrow> (Inr None, st1)
            | (Inr data, st1) \<Rightarrow> (Inr (Some data), st1)))"

definition or_empty :: "string list option \<Rightarrow> string list" where
  \<comment> \<open>\<^verbatim>\<open>[...(v || [])]\<close>: a copy of the list, empty when \<open>v\<close> is \<^verbatim>\<open>null\<close>\<close>
  "or_empty v = (case v of None \<Rightarrow> [] | Some l \<Rightarrow> l)"

definition truthy :: "string \<Rightarrow> string option" where
  \<comment> \<open>\<^verbatim>\<open>...(v && { key: v })\<close>: the key is there when \<open>v\<close> is not empty\<close>
  "truthy v = (if v = '''' then None else Some v)"

definition saveUser ::
  "backend \<Rightarrow> profile \<Rightarrow> store \<Rightarrow> (store_error + user) \<times> store" where
  "saveUser b userData st =
     (let cleanUserData =
            \<lparr>email = email userData, name = name userData,
             organization = or_undefined (organization userData),
             ein = or_undefined (ein userData)\<rparr>
      in case select_user_by_email b (email cleanUserData) st of
           (Inl fetchError, st1) \<Rightarrow> (Inl fetchError, st1)
         | (Inr (Some existingUser), st1) \<Rightarrow>
             (let updatedAppIds = or_empty (app_ids existingUser)
              in if QR_CODE_GENERATOR \<notin> set updatedAppIds then
                   (case update_user_by_id b (id_user existingUser)
                           \<lparr>patch_app_ids = updatedAppIds @ [QR_CODE_GENERATOR],
                            patch_name = truthy (name cleanUserData),
                            patch_organization = organization cleanUserData,
                            patch_ein = ein cleanUserData\<rparr> st1 of
                      (Inl updateError, st2) \<Rightarrow> (Inl updateError, st2)
                    | (Inr updatedUser, st2) \<Rightarrow> (Inr updatedUser, st2))
                 else (Inr existingUser, st1))
         | (Inr None, st1) \<Rightarrow>
             (case insert_user b cleanUserData [QR_CODE_GENERATOR] st1 of
                (Inl insertError, st2) \<Rightarrow> (Inl insertError, st2)
              | (Inr newUser, st2) \<Rightarrow>
                  (if id_user newUser \<noteq> '''' then
                     (case updateVisit b (id_user newUser) QR_CODE_GENERATOR st2 of
                        (Inl visitError, st3) \<Rightarrow> (Inr newUser, st3)
                      | (Inr v, st3) \<Rightarrow> (Inr newUser, st3))
                   else (Inr newUser, st2))))"

section \<open>The logo intake (LogoUpload.tsx)\<close>

text \<open>
  What the component sees of a file is its MIME type and its size. Decoding it
  (\<^verbatim>\<open>new Image()\<close>), compressing it (\<^verbatim>\<open>browser-image-compression\<close>) and reading the result
  (\<^verbatim>\<open>FileReader\<close>) are done by the browser and a library, which are parameters here.
\<close>

record File =
  file_type :: string
  file_size :: nat

record browser =
  \<comment> \<open>\<open>decode\<close>: the natural width and height when \<^verbatim>\<open>onload\<close> fires, \<open>None\<close> when
      \<^verbatim>\<open>onerror\<close> does; \<open>imageCompression\<close>: \<open>Inl\<close> is a rejected promise;
      \<open>readAsDataURL\<close>: \<^verbatim>\<open>reader.result\<close> at \<^verbatim>\<open>loadend\<close>, \<open>None\<close> is \<^verbatim>\<open>null\<close>\<close>
  decode :: "File \<Rightarrow> (nat \<times> nat) option"
  imageCompression :: "File \<Rightarrow> string + File"
  readAsDataURL :: "File \<Rightarrow> string option"

record logo_upload =
  \<comment> \<open>the three state cells, and the arguments \<^verbatim>\<open>onLogoChange\<close> was called with, in order\<close>
  isDragging :: bool
  error_logo :: string
  preview :: "string option"
  onLogoChange :: "string option list"

definition startsWith :: "string \<Rightarrow> string \<Rightarrow> bool" where
  "startsWith s p = (take (length p) s = p)"

definition validateImage :: "browser \<Rightarrow> File \<Rightarrow> logo_upload \<Rightarrow> bool \<times> logo_upload" where
  "validateImage br f st =
     (case decode br f of
        Some (width, height) \<Rightarrow>
          (if width < 100 \<or> height < 100
             then (False, st\<lparr>error_logo := ''Image must be at least 100x100 pixels''\<rparr>)
           else if width > 2000 \<or> height > 2000
             then (False, st\<lparr>error_logo := ''Image must be no larger than 2000x2000 pixels''\<rparr>)
           else (True, st\<lparr>error_logo := ''''\<rparr>))
      | None \<Rightarrow> (False, st\<lparr>error_logo := ''Invalid image file''\<rparr>))"

definition processImage :: "browser \<Rightarrow> File \<Rightarrow> logo_upload \<Rightarrow> logo_upload" where
  "processImage br f st =
     (if \<not> startsWith (file_type f) ''image/''
        then st\<lparr>error_logo := ''Please upload an image file''\<rparr>
      else if file_size f > 5 * 1024 * 1024
        then st\<lparr>error_logo := ''File size must be less than 5MB''\<rparr>
      else
        (case validateImage br f st of
           (False, st1) \<Rightarrow> st1
         | (True, st1) \<Rightarrow>
             (case imageCompression br f of
                Inl err \<Rightarrow> st1\<lparr>error_logo := ''Error processing image''\<rparr>
              | Inr compressedFile \<Rightarrow>
                  (let base64data = readAsDataURL br compressedFile
                   in st1\<lparr>preview := base64data,
                          onLogoChange := onLogoChange st1 @ [base64data]\<rparr>))))"

section \<open>The generator view (QRCodeGenerator.tsx)\<close>

subsection \<open>Drafting text with the language model\<close>

text \<open>
  \<^verbatim>\<open>generateAIText\<close> runs up to its \<^verbatim>\<open>await\<close>, and resumes when the completion request
  is answered. The requests sent and not yet answered are kept in \<open>in_flight\<close>; the
  first half of the function appends to it, the second half removes the request it
  answers. \<open>openai\<close> says whether the client exists (an API key is configured).
  Events are handled one after the other, each on the state the previous one left
  (the component is rendered again before the next event is dispatched).
\<close>

datatype text_type = description | purpose

record generator_view =
  url :: string
  orgDescription :: string
  urlPurpose :: string
  isGenerating :: bool
  error_view :: string
  in_flight :: "(text_type \<times> string) list"

definition initial_view :: generator_view where
  "initial_view =
     \<lparr>url = '''', orgDescription = '''', urlPurpose = '''', isGenerating = False,
      error_view = '''', in_flight = []\<rparr>"

definition prompt :: "text_type \<Rightarrow> generator_view \<Rightarrow> string" where
  "prompt t st =
     (if t = description then
        ''Write a concise, engaging description for a non-profit organization based on this context: ''
        @ orgDescription st
        @ ''. Make it professional and appealing to potential donors or supporters. Keep it under 100 words.''
      else
        ''Write a clear, compelling explanation of this URL'' @ [CHR 0x27]
        @ ''s purpose based on this context: '' @ urlPurpose st
        @ ''. The URL is: '' @ url st
        @ ''. Focus on the value it provides to visitors. Keep it under 75 words.'')"

definition generateAIText :: "bool \<Rightarrow> text_type \<Rightarrow> generator_view \<Rightarrow> generator_view" where
  \<comment> \<open>from the call to the \<^verbatim>\<open>await\<close>\<close>
  "generateAIText openai t st =
     (if isGenerating st then st
      else if \<not> openai then
        st\<lparr>error_view :=
          ''OpenAI API key is not configured. Please add your API key to the environment variables.''\<rparr>
      else
        st\<lparr>error_view := '''', isGenerating := True,
           in_flight := in_flight st @ [(t, prompt t st)]\<rparr>)"

definition is_space :: "char \<Rightarrow> bool" where
  \<comment> \<open>the white space and line terminators of \<^verbatim>\<open>trim\<close> that fit one byte\<close>
  "is_space c = ((of_char c :: nat) \<in> {9, 10, 11, 12, 13, 32, 160})"

definition trim :: "string \<Rightarrow> string" where
  "trim s = rev (dropWhile is_space (rev (dropWhile is_space s)))"

datatype completion =
    Completed "string option"
  | Failed "string option"

definition generateAIText_resume :: "completion \<Rightarrow> generator_view \<Rightarrow> generator_view" where
  \<comment> \<open>from the \<^verbatim>\<open>await\<close> to the end. \<open>Completed c\<close>: the request resolved and
      \<^verbatim>\<open>response.choices[0]?.message?.content\<close> is \<open>c\<close>; \<open>Failed m\<close>: it was rejected and
      \<^verbatim>\<open>error?.error?.message\<close> is \<open>m\<close>\<close>
  "generateAIText_resume c st =
     (case in_flight st of
        [] \<Rightarrow> st
      | (t, p) # rest \<Rightarrow>
          (let st1 =
                 (case c of
                    Completed content \<Rightarrow>
                      (let generatedText = (case content of None \<Rightarrow> '''' | Some txt \<Rightarrow> trim txt)
                       in if t = description then st\<lparr>orgDescription := generatedText\<rparr>
                          else st\<lparr>urlPurpose := generatedText\<rparr>)
                  | Failed msg \<Rightarrow>
                      st\<lparr>error_view :=
                        (case or_undefined msg of
                           None \<Rightarrow> ''Error generating AI text. Please try again.''
                         | Some m \<Rightarrow> m)\<rparr>)
           in st1\<lparr>isGenerating := False, in_flight := rest\<rparr>))"

datatype event =
    Generate text_type
  | Answer completion
  | SetUrl string
  | SetOrgDescription string
  | SetUrlPurpose string

fun step :: "bool \<Rightarrow> generator_view \<Rightarrow> event \<Rightarrow> generator_view" where
  "step openai st (Generate t) = generateAIText openai t st"
| "step openai st (Answer c) = generateAIText_resume c st"
| "step openai st (SetUrl v) = st\<lparr>url := v\<rparr>"
| "step openai st (SetOrgDescription v) = st\<lparr>orgDescription := v\<rparr>"
| "step openai st (SetUrlPurpose v) = st\<lparr>urlPurpose := v\<rparr>"

definition run :: "bool \<Rightarrow> event list \<Rightarrow> generator_view" where
  \<comment> \<open>the view after a sequence of events, from its initial state\<close>
  "run openai evs = foldl (step openai) initial_view evs"

subsection \<open>Numbers\<close>

text \<open>
  A JavaScript number is an IEEE 754 double. \<open>Finite q\<close> is the double of value \<open>q\<close>, and
  \<open>to_number\<close> rounds an exact result to the nearest double, ties to the even
  significand: 53 bits from 2 to the power -1022 on, multiples of 2 to the power -1074
  below, and infinity from 2 to the power 1024 on. The two zeros are one value here; they differ only as divisors,
  and the divisors of \<^verbatim>\<open>downloadImage\<close> (the image height, the aspect ratio and 2) are
  never negative.
\<close>

datatype number = Finite rat | PlusInfinity | MinusInfinity | NaN


definition exponent :: "rat \<Rightarrow> int" where
  \<comment> \<open>for \<open>0 < x\<close>, the \<open>e\<close> with \<open>2^e \<le> x < 2^(e + 1)\<close>\<close>
  "exponent x =
     (let (p, q) = quotient_of x;
          d = bitlen p - bitlen q
      in if 2 powi d \<le> x then d else d - 1)"

definition round_even :: "rat \<Rightarrow> int" where
  \<comment> \<open>the nearest integer, the even one of two that are equally near\<close>
  "round_even x =
     (let f = \<lfloor>x\<rfloor>;
          d = x - of_int f
      in if d < 1 / 2 then f
         else if 1 / 2 < d then f + 1
         else if even f then f else f + 1)"

definition round_magnitude :: "rat \<Rightarrow> rat" where
  \<comment> \<open>for \<open>0 < x\<close>, the nearest multiple of the unit in the last place\<close>
  "round_magnitude x =
     (let e = max (exponent x) (- 1022);
          ulp = 2 powi (e - 52)
      in of_int (round_even (x / ulp)) * ulp)"

definition to_number :: "rat \<Rightarrow> number" where
  "to_number x =
     (if x = 0 then Finite 0
      else
        (let r = round_magnitude \<bar>x\<bar>
         in if 2 powi 1024 \<le> r then (if 0 < x then PlusInfinity else MinusInfinity)
            else Finite (if 0 < x then r else - r)))"


text \<open>Division, multiplication, subtraction and \<^verbatim>\<open>>\<close> on numbers.\<close>

fun num_div :: "number \<Rightarrow> number \<Rightarrow> number" where
  "num_div NaN y = NaN"
| "num_div x NaN = NaN"
| "num_div (Finite a) (Finite b) =
     (if b = 0 then (if a = 0 then NaN else if 0 < a then PlusInfinity else MinusInfinity)
      else to_number (a / b))"
| "num_div (Finite a) y = Finite 0"
| "num_div PlusInfinity (Finite b) = (if 0 \<le> b then PlusInfinity else MinusInfinity)"
| "num_div MinusInfinity (Finite b) = (if 0 \<le> b then MinusInfinity else PlusInfinity)"
| "num_div x y = NaN"

fun num_mul :: "number \<Rightarrow> number \<Rightarrow> number" where
  "num_mul NaN y = NaN"
| "num_mul x NaN = NaN"
| "num_mul (Finite a) (Finite b) = to_number (a * b)"
| "num_mul (Finite a) PlusInfinity =
     (if a = 0 then NaN else if 0 < a then PlusInfinity else MinusInfinity)"
| "num_mul (Finite a) MinusInfinity =
     (if a = 0 then NaN else if 0 < a then MinusInfinity else PlusInfinity)"
| "num_mul PlusInfinity (Finite b) =
     (if b = 0 then NaN else if 0 < b then PlusInfinity else MinusInfinity)"
| "num_mul MinusInfinity (Finite b) =
     (if b = 0 then NaN else if 0 < b then MinusInfinity else PlusInfinity)"
| "num_mul PlusInfinity PlusInfinity = PlusInfinity"
| "num_mul MinusInfinity MinusInfinity = PlusInfinity"
| "num_mul PlusInfinity MinusInfinity = MinusInfinity"
| "num_mul MinusInfinity PlusInfinity = MinusInfinity"

fun num_sub :: "number \<Rightarrow> number \<Rightarrow> number" where
  "num_sub NaN y = NaN"
| "num_sub x NaN = NaN"
| "num_sub (Finite a) (Finite b) = to_number (a - b)"
| "num_sub (Finite a) PlusInfinity = MinusInfinity"
| "num_sub (Finite a) MinusInfinity = PlusInfinity"
| "num_sub PlusInfinity PlusInfinity = NaN"
| "num_sub MinusInfinity MinusInfinity = NaN"
| "num_sub PlusInfinity y = PlusInfinity"
| "num_sub MinusInfinity y = MinusInfinity"

fun num_gt :: "number \<Rightarrow> number \<Rightarrow> bool" where
  "num_gt NaN y = False"
| "num_gt x NaN = False"
| "num_gt (Finite a) (Finite b) = (b < a)"
| "num_gt PlusInfinity PlusInfinity = False"
| "num_gt PlusInfinity y = True"
| "num_gt x MinusInfinity = (x \<noteq> MinusInfinity)"
| "num_gt x y = False"


subsection \<open>Placing the image on the PDF page\<close>

record placement =
  x_in :: number
  y_in :: number
  width_in :: number
  height_in :: number

definition pdf_placement :: "nat \<Rightarrow> nat \<Rightarrow> placement" where
  \<comment> \<open>the arguments are \<^verbatim>\<open>imgProps.width\<close> and \<^verbatim>\<open>imgProps.height\<close>, in pixels; the result
      is what \<^verbatim>\<open>pdf.addImage\<close> is called with, in inches\<close>
  "pdf_placement imgWidth imgHeight =
     (let pageWidth = to_number 8.5;
          pageHeight = to_number 11;
          margin = to_number 0.5;
          maxWidth = num_sub pageWidth (num_mul (to_number 2) margin);
          maxHeight = num_sub pageHeight (num_mul (to_number 2) margin);
          aspectRatio = num_div (to_number (of_nat imgWidth)) (to_number (of_nat imgHeight));
          width = maxWidth;
          height = num_div width aspectRatio;
          (width, height) =
            (if num_gt height maxHeight then (num_mul maxHeight aspectRatio, maxHeight)
             else (width, height));
          x = num_div (num_sub pageWidth width) (to_number 2);
          y = num_div (num_sub pageHeight height) (to_number 2)
      in \<lparr>x_in = x, y_in = y, width_in = width, height_in = height\<rparr>)"

section \<open>What the regular expressions match\<close>

text \<open>
  The set of strings a pattern denotes, used to reason about \<open>test\<close> on strings that are
  not given character by character.
\<close>

inductive_set star :: "string set \<Rightarrow> string set" for A :: "string set" where
  star_empty: "[] \<in> star A"
| star_more: "u \<in> A \<Longrightarrow> v \<in> star A \<Longrightarrow> u @ v \<in> star A"

fun lang :: "regex \<Rightarrow> string set" where
  "lang NoMatch = {}"
| "lang Empty = {[]}"
| "lang (Class P) = {[c] | c. P c}"
| "lang (Concat r s) = {u @ v | u v. u \<in> lang r \<and> v \<in> lang s}"
| "lang (Choice r s) = lang r \<union> lang s"
| "lang (Repeat r) = star (lang r)"

section \<open>Notions used in the statements\<close>

text \<open>The object \<^verbatim>\<open>saveUser\<close> gives to \<^verbatim>\<open>update\<close> for an existing row and a submission.\<close>

definition merge_patch :: "user \<Rightarrow> profile \<Rightarrow> user_patch" where
  "merge_patch ex userData =
     \<lparr>patch_app_ids = or_empty (app_ids ex) @ [QR_CODE_GENERATOR],
      patch_name = truthy (name userData),
      patch_organization = or_undefined (organization userData),
      patch_ein = or_undefined (ein userData)\<rparr>"

text \<open>
  At most one completion request is unanswered, and while one is, the flag
  \<open>isGenerating\<close> is set.
\<close>

definition one_request :: "generator_view \<Rightarrow> bool" where
  "one_request st = (length (in_flight st) \<le> 1 \<and> (in_flight st = [] \<or> isGenerating st))"

text \<open>A number that is at least one, infinite or not a number.\<close>

definition at_least_one :: "number \<Rightarrow> bool" where
  "at_least_one a = (case a of Finite c \<Rightarrow> 1 \<le> c | PlusInfinity \<Rightarrow> True | MinusInfinity \<Rightarrow> False | NaN \<Rightarrow> True)"

section \<open>Example data\<close>

text \<open>
  A backend on which every request succeeds and one on which every request fails, a
  table of two users (\<open>ann\<close> already lists the generator's application id, \<open>bob\<close> does
  not), submissions with their emails and with a new one, and a browser that decodes,
  compresses and reads every file.
\<close>

definition ok_backend :: backend where
  "ok_backend =
     \<lparr>fault = (\<lambda>n. None), new_id = (\<lambda>n. ''u2''),
      clock = (\<lambda>n. ''2025-01-01T00:00:00.000Z''),
      upserted = (\<lambda>n. \<lparr>id_visit = ''v1'', user_id = ''u2'', app_id = ''qr-gen-v1'',
                          visit_count = 1, last_visit = ''2025-01-01T00:00:00.000Z'',
                          created_at_visit = ''2025-01-01T00:00:00.000Z''\<rparr>)\<rparr>"

definition failing_backend :: backend where
  "failing_backend =
     \<lparr>fault = (\<lambda>n. Some (StoreError ''network'')), new_id = (\<lambda>n. ''u1''),
      clock = (\<lambda>n. ''2025-01-01T00:00:00.000Z''),
      upserted = (\<lambda>n. \<lparr>id_visit = ''v1'', user_id = ''u1'', app_id = ''qr-gen-v1'',
                          visit_count = 1, last_visit = ''2025-01-01T00:00:00.000Z'',
                          created_at_visit = ''2025-01-01T00:00:00.000Z''\<rparr>)\<rparr>"

definition ann :: user where
  "ann = \<lparr>email = ''ann@example.org'', name = ''Ann'', organization = None, ein = None,
          id_user = ''u1'', app_ids = Some [''qr-gen-v1''], created_at = ''2024-06-01T00:00:00.000Z''\<rparr>"

definition ann_again :: profile where
  "ann_again = \<lparr>email = ''ann@example.org'', name = ''Ann Lee'', organization = Some ''Shelter'',
                ein = Some ''12-3456789''\<rparr>"

definition bob :: user where
  "bob = \<lparr>email = ''bob@example.org'', name = ''Bob'', organization = Some ''Food Bank'', ein = None,
          id_user = ''u7'', app_ids = Some [''donations-v1''], created_at = ''2024-06-01T00:00:00.000Z''\<rparr>"

definition bob_again :: profile where
  "bob_again = \<lparr>email = ''bob@example.org'', name = ''Robert'', organization = Some '''',
                ein = Some ''12-3456789''\<rparr>"

definition cal :: profile where
  "cal = \<lparr>email = ''cal@example.org'', name = ''Cal'', organization = None, ein = None\<rparr>"

definition two_users :: store where
  "two_users = \<lparr>users = [ann, bob], requests = []\<rparr>"

definition test_browser :: browser where
  "test_browser =
     \<lparr>decode = (\<lambda>f. if file_size f = 1024 * 1024 then Some (500, 500)
                      else if file_size f = 2048 then Some (50, 50) else Some (3000, 3000)),
      imageCompression = (\<lambda>f. Inr (f\<lparr>file_size := 1000\<rparr>)),
      readAsDataURL = (\<lambda>f. Some ''data:image/png;base64,iVBORw0KGgo='')\<rparr>"

definition empty_logo :: logo_upload where
  "empty_logo = \<lparr>isDragging = False, error_logo = '''', preview = None, onLogoChange = []\<rparr>"

section \<open>Properties of the regular expressions\<close>

lemma accepts_empty_lang: "accepts_empty r \<longleftrightarrow> [] \<in> lang r"
  by (induction r) (auto intro: star.intros)

lemma star_cons:
  "c # w \<in> star A \<longleftrightarrow> (\<exists>u v. w = u @ v \<and> c # u \<in> A \<and> v \<in> star A)"
proof
  assume "c # w \<in> star A"
  then show "\<exists>u v. w = u @ v \<and> c # u \<in> A \<and> v \<in> star A"
  proof (induction "c # w" rule: star.induct)
    case (star_more u v)
    then show ?case by (cases u) auto
  qed
next
  assume "\<exists>u v. w = u @ v \<and> c # u \<in> A \<and> v \<in> star A"
  then obtain u v where "w = u @ v" "c # u \<in> A" "v \<in> star A" by blast
  then show "c # w \<in> star A"
    using star.star_more [of "c # u" A v] by simp
qed

lemma after_lang: "w \<in> lang (after r c) \<longleftrightarrow> c # w \<in> lang r"
proof (induction r arbitrary: w)
  case (Concat r s)
  then show ?case
    by (auto simp: accepts_empty_lang Cons_eq_append_conv)
next
  case (Repeat r)
  then show ?case by (auto simp: star_cons)
qed auto

lemma foldl_after_lang: "[] \<in> lang (foldl after r s) \<longleftrightarrow> s \<in> lang r"
  by (induction s arbitrary: r) (simp_all add: after_lang)

lemma test_lang: "test r s \<longleftrightarrow> s \<in> lang r"
  by (simp add: test_def accepts_empty_lang foldl_after_lang)

lemma lang_Concat:
  "s \<in> lang (Concat r q) \<longleftrightarrow> (\<exists>u v. s = u @ v \<and> u \<in> lang r \<and> v \<in> lang q)"
  by auto

lemma lang_Class_Concat:
  "s \<in> lang (Concat (Class P) r) \<longleftrightarrow> (\<exists>c t. s = c # t \<and> P c \<and> t \<in> lang r)"
proof
  assume "s \<in> lang (Concat (Class P) r)"
  then obtain u v where "s = u @ v" "u \<in> lang (Class P)" "v \<in> lang r"
    unfolding lang_Concat by blast
  then show "\<exists>c t. s = c # t \<and> P c \<and> t \<in> lang r" by auto
next
  assume "\<exists>c t. s = c # t \<and> P c \<and> t \<in> lang r"
  then obtain c t where "s = [c] @ t" "P c" "t \<in> lang r" by auto
  moreover have "[c] \<in> lang (Class P)" using \<open>P c\<close> by simp
  ultimately show "s \<in> lang (Concat (Class P) r)"
    unfolding lang_Concat by blast
qed

lemma lang_exactly_Class:
  "s \<in> lang (exactly n (Class P)) \<longleftrightarrow> length s = n \<and> list_all P s"
proof (induction n arbitrary: s)
  case 0
  show ?case by auto
next
  case (Suc n)
  show ?case
  proof (cases s)
    case Nil
    then show ?thesis by (simp add: lang_Class_Concat del: lang.simps)
  next
    case (Cons c t)
    then show ?thesis using Suc [of t] by (auto simp add: lang_Class_Concat simp del: lang.simps)
  qed
qed

lemma lang_einRegex:
  "s \<in> lang einRegex \<longleftrightarrow> (\<exists>u v. s = u @ CHR ''-'' # v \<and>
      length u = 2 \<and> list_all is_digit u \<and> length v = 7 \<and> list_all is_digit v)"
proof -
  have "s \<in> lang einRegex \<longleftrightarrow>
     (\<exists>u w. s = u @ w \<and> u \<in> lang (exactly 2 (Class is_digit)) \<and>
        w \<in> lang (Concat (Class (\<lambda>d. d = CHR ''-'')) (exactly 7 (Class is_digit))))"
    unfolding einRegex_def lit_def by (rule lang_Concat)
  also have "\<dots> \<longleftrightarrow> (\<exists>u v. s = u @ CHR ''-'' # v \<and>
      length u = 2 \<and> list_all is_digit u \<and> length v = 7 \<and> list_all is_digit v)"
    unfolding lang_Class_Concat lang_exactly_Class by blast
  finally show ?thesis .
qed

lemma einRegex_test:
  "test einRegex s \<longleftrightarrow>
     length s = 10 \<and> list_all is_digit (take 2 s) \<and> s ! 2 = CHR ''-'' \<and> list_all is_digit (drop 3 s)"
  (is "?L \<longleftrightarrow> ?R")
proof
  assume ?L
  then obtain u v where "s = u @ CHR ''-'' # v" "length u = 2" "list_all is_digit u"
     "length v = 7" "list_all is_digit v"
    unfolding test_lang lang_einRegex by blast
  then show ?R by (simp add: nth_append)
next
  assume r: ?R
  then have "2 < length s" by simp
  then have "s = take 2 s @ s ! 2 # drop (Suc 2) s"
    by (rule id_take_nth_drop)
  then have "s = take 2 s @ CHR ''-'' # drop 3 s"
    using r by (simp add: numeral_3_eq_3)
  moreover have "length (take 2 s) = 2" "length (drop 3 s) = 7" using r by simp_all
  ultimately have "s \<in> lang einRegex"
    unfolding lang_einRegex using r by blast
  then show ?L by (simp add: test_lang)
qed

section \<open>Live formatting of the EIN\<close>

lemma hyphen_not_digit: "\<not> is_digit CHR ''-''"
  by (simp add: is_digit_def)

lemma filter_digits_id: "list_all is_digit s \<Longrightarrow> filter is_digit s = s"
  by (induction s) auto

lemma list_all_filter_digit: "list_all is_digit (filter is_digit v)"
  by (induction v) auto

lemma formatEIN_digits: "filter is_digit (formatEIN v) = take 9 (filter is_digit v)"
proof -
  define d where "d = filter is_digit v"
  have all: "list_all is_digit d" by (simp add: d_def list_all_filter_digit)
  have t: "list_all is_digit (take n d)" for n
    using all by (simp add: list_all_iff) (meson in_set_takeD)
  have dt: "list_all is_digit (drop n (take m d))" for n m
    using all by (simp add: list_all_iff) (meson in_set_takeD in_set_dropD)
  show ?thesis
  proof (cases "length d \<le> 2")
    case True
    then show ?thesis
      using all by (simp add: formatEIN_def d_def [symmetric] filter_digits_id)
  next
    case False
    have "filter is_digit (formatEIN v) = take 2 d @ drop 2 (take 9 d)"
      using False t [of 2] dt [of 2 9]
      by (simp add: formatEIN_def d_def [symmetric] slice_def hyphen_not_digit filter_digits_id)
    also have "\<dots> = take 2 (take 9 d) @ drop 2 (take 9 d)" by simp
    also have "\<dots> = take 9 d" by (rule append_take_drop_id)
    finally show ?thesis by (simp add: d_def)
  qed
qed

lemma formatEIN_length: "length (formatEIN v) \<le> 10"
  by (auto simp: formatEIN_def slice_def Let_def)

lemma formatEIN_of_digits:
  "formatEIN v = (let d = take 9 (filter is_digit v) in
      if length d \<le> 2 then d else take 2 d @ ''-'' @ drop 2 d)"
  by (auto simp: formatEIN_def slice_def Let_def min_def)

lemma formatEIN_shape:
  "(length (formatEIN v) \<le> 2 \<and> list_all is_digit (formatEIN v))
   \<or> (4 \<le> length (formatEIN v) \<and> length (formatEIN v) \<le> 10
      \<and> list_all is_digit (take 2 (formatEIN v)) \<and> formatEIN v ! 2 = CHR ''-''
      \<and> list_all is_digit (drop 3 (formatEIN v)))"
proof -
  define d where "d = filter is_digit v"
  have all: "list_all is_digit d" by (simp add: d_def list_all_filter_digit)
  have t: "list_all is_digit (take n d)" for n
    using all by (simp add: list_all_iff) (meson in_set_takeD)
  have dt: "list_all is_digit (drop n (take m d))" for n m
    using all by (simp add: list_all_iff) (meson in_set_takeD in_set_dropD)
  show ?thesis
  proof (cases "length d \<le> 2")
    case True
    then show ?thesis using all by (simp add: formatEIN_def d_def [symmetric])
  next
    case False
    then have f: "formatEIN v = take 2 d @ CHR ''-'' # drop 2 (take 9 d)"
      by (simp add: formatEIN_def d_def [symmetric] slice_def)
    have l: "length (take 2 d) = 2" using False by simp
    show ?thesis
      unfolding f using False t [of 2] dt [of 2 9] l
      by (auto simp: nth_append)
  qed
qed

lemma formatEIN_matches:
  "test einRegex (formatEIN v) \<longleftrightarrow> 9 \<le> length (filter is_digit v)"
proof -
  define d where "d = filter is_digit v"
  have all: "list_all is_digit d" by (simp add: d_def list_all_filter_digit)
  have t: "list_all is_digit (take n d)" for n
    using all by (simp add: list_all_iff) (meson in_set_takeD)
  have dt: "list_all is_digit (drop n (take m d))" for n m
    using all by (simp add: list_all_iff) (meson in_set_takeD in_set_dropD)
  show ?thesis
  proof (cases "length d \<le> 2")
    case True
    then show ?thesis by (simp add: einRegex_test formatEIN_def d_def [symmetric])
  next
    case False
    then have f: "formatEIN v = take 2 d @ CHR ''-'' # drop 2 (take 9 d)"
      by (simp add: formatEIN_def d_def [symmetric] slice_def)
    have l: "length (take 2 d) = 2" using False by simp
    show ?thesis
      unfolding f einRegex_test d_def [symmetric] using False t [of 2] dt [of 2 9] l
      by (auto simp: nth_append)
  qed
qed

lemma formatEIN_empty: "formatEIN v = '''' \<longleftrightarrow> filter is_digit v = []"
  by (auto simp: formatEIN_def Let_def)

lemma handleChange_ein: "f_ein (formData (handleChange ''ein'' v st)) = formatEIN v"
  by (simp add: handleChange_def validateEIN_def set_field_def Let_def)

text \<open>
  Claim C10. Formatting is idempotent, and its result keeps the first nine digits of
  the input and nothing of the later ones: it holds at most nine digits and at most
  ten characters.
\<close>

theorem formatEIN_idempotent_bounded:
  "formatEIN (formatEIN v) = formatEIN v
   \<and> filter is_digit (formatEIN v) = take 9 (filter is_digit v)
   \<and> length (filter is_digit (formatEIN v)) \<le> 9
   \<and> length (formatEIN v) \<le> 10"
proof -
  have "formatEIN (formatEIN v) = formatEIN v"
    unfolding formatEIN_of_digits [of "formatEIN v"] formatEIN_digits
    unfolding formatEIN_of_digits [of v] by (simp add: Let_def)
  then show ?thesis
    by (simp add: formatEIN_digits formatEIN_length)
qed

text \<open>
  Claim C2, as stated, fails: after the first digit is typed, the EIN kept in the form
  state is that digit, which is neither empty nor of the shape \<^verbatim>\<open>NN-NNNNNNN\<close>.
\<close>

theorem handleChange_ein_counterexample:
  "f_ein (formData (handleChange ''ein'' ''1'' initial_form)) = ''1''
   \<and> ''1'' \<noteq> '''' \<and> \<not> test einRegex ''1''"
  by (simp add: handleChange_ein formatEIN_def is_digit_def einRegex_test)

text \<open>
  Claim C2, amended. The change handler of the EIN field stores the formatted input,
  which is either at most two digits (empty when the input has no digit), or two
  digits, a hyphen and one to seven digits; it matches \<^verbatim>\<open>NN-NNNNNNN\<close> exactly when the
  input holds nine digits or more.
\<close>

theorem handleChange_ein_shape:
  "f_ein (formData (handleChange ''ein'' v st)) = formatEIN v
   \<and> ((length (formatEIN v) \<le> 2 \<and> list_all is_digit (formatEIN v))
      \<or> (4 \<le> length (formatEIN v) \<and> length (formatEIN v) \<le> 10
         \<and> list_all is_digit (take 2 (formatEIN v)) \<and> formatEIN v ! 2 = CHR ''-''
         \<and> list_all is_digit (drop 3 (formatEIN v))))
   \<and> (formatEIN v = '''' \<longleftrightarrow> filter is_digit v = [])
   \<and> (test einRegex (formatEIN v) \<longleftrightarrow> 9 \<le> length (filter is_digit v))"
  using formatEIN_shape [of v]
  by (simp only: handleChange_ein formatEIN_empty formatEIN_matches simp_thms)

section \<open>Submitting the form\<close>

lemma not_an_email: "\<not> test emailRegex ''not-an-email''"
  by code_simp

lemma handleChange_email: "f_email (formData (handleChange ''email'' v st)) = v"
  by (simp add: handleChange_def validateEmail_def set_field_def Let_def)


text \<open>
  Claim C6. When the email of the form does not match the address pattern, the submit
  handler returns without calling \<^verbatim>\<open>onSubmit\<close> (so nothing is sent), and leaves an
  error message on the email field.
\<close>

theorem handleSubmit_blocks_invalid_email:
  "\<not> test emailRegex (f_email (formData st)) \<Longrightarrow>
     snd (handleSubmit st) = None \<and> emailError (fst (handleSubmit st)) \<noteq> ''''"
  by (simp add: handleSubmit_def validateEmail_def)


text \<open>Witness for C6: a form whose email field was filled with \<^verbatim>\<open>not-an-email\<close>.\<close>

theorem handleSubmit_blocks_invalid_email_witness:
  "\<not> test emailRegex ''not-an-email''
   \<and> snd (handleSubmit (handleChange ''email'' ''not-an-email'' initial_form)) = None
   \<and> emailError (fst (handleSubmit (handleChange ''email'' ''not-an-email'' initial_form))) \<noteq> ''''"
  using handleSubmit_blocks_invalid_email [of "handleChange ''email'' ''not-an-email'' initial_form"]
  by (simp add: handleChange_email not_an_email)


text \<open>A form filled with a valid email and EIN does reach \<^verbatim>\<open>onSubmit\<close>.\<close>

lemma handleSubmit_valid_example:
  "snd (handleSubmit (handleChange ''ein'' ''12-3456789''
      (handleChange ''email'' ''ann@example.org'' (handleChange ''name'' ''Ann'' initial_form))))
   = Some \<lparr>email = ''ann@example.org'', name = ''Ann'', organization = Some '''',
            ein = Some ''12-3456789''\<rparr>"
  by code_simp


section \<open>Saving a user whose email is in the table\<close>

text \<open>
  When emails and ids are unique in the table, the lookup finds the one row with the
  submitted email and the update reaches that row alone, so \<^verbatim>\<open>saveUser\<close> reduces
  to the following.
\<close>

lemma filter_unique:
  "distinct (map f xs) \<Longrightarrow> x \<in> set xs \<Longrightarrow> filter (\<lambda>y. f y = f x) xs = [x]"
proof (induction xs)
  case Nil
  then show ?case by simp
next
  case (Cons a xs)
  show ?case
  proof (cases "a = x")
    case True
    have "f x \<notin> f ` set xs" using Cons.prems(1) True by simp
    then have "\<forall>y\<in>set xs. f y \<noteq> f x"
      by (metis imageI)
    then have "filter (\<lambda>y. f y = f x) xs = []"
      by (simp add: filter_empty_conv)
    then show ?thesis using True by simp
  next
    case False
    then have "x \<in> set xs" using Cons.prems(2) by simp
    moreover from this have "f a \<noteq> f x" using Cons.prems(1) by auto
    ultimately show ?thesis using Cons by simp
  qed
qed

lemma saveUser_existing:
  assumes "ex \<in> set (users st)" and "email ex = email userData"
    and "distinct (map email (users st))" and "distinct (map id_user (users st))"
  shows "saveUser b userData st =
    (let n = length (requests st);
         st1 = issue (SelectUserByEmail (email userData)) st;
         p = merge_patch ex userData;
         st2 = issue (UpdateUserById (id_user ex) p) st1
     in case fault b n of
          Some err \<Rightarrow> (Inl err, st1)
        | None \<Rightarrow>
            if QR_CODE_GENERATOR \<in> set (or_empty (app_ids ex))
              then (Inr ex, st1)
            else
              (case fault b (Suc n) of
                 Some err \<Rightarrow> (Inl err, st2)
               | None \<Rightarrow>
                   (Inr (apply_patch p ex),
                    st2\<lparr>users := map (\<lambda>r. if id_user r = id_user ex then apply_patch p r else r)
                                      (users st)\<rparr>)))"
proof -
  have e: "filter (\<lambda>u. email u = email userData) (users st) = [ex]"
    using filter_unique [of email "users st" ex] assms by simp
  have i: "filter (\<lambda>u. id_user u = id_user ex) (users st) = [ex]"
    using filter_unique [of id_user "users st" ex] assms by simp
  show ?thesis
    by (simp add: saveUser_def select_user_by_email_def update_user_by_id_def e i issue_def
        merge_patch_def Let_def split: option.splits)
qed

lemma map_update_unique:
  assumes "distinct (map id_user us)" and "ex \<in> set us"
  shows "map id_user (map (\<lambda>r. if id_user r = id_user ex then apply_patch p r else r) us)
           = map id_user us"
    and "apply_patch p ex \<in> set (map (\<lambda>r. if id_user r = id_user ex then apply_patch p r else r) us)"
    and "\<forall>r\<in>set us. id_user r \<noteq> id_user ex \<longrightarrow>
           r \<in> set (map (\<lambda>r. if id_user r = id_user ex then apply_patch p r else r) us)"
  using assms by (auto simp: apply_patch_def image_iff)


lemma merged_fields:
  "name (apply_patch (merge_patch ex userData) ex)
     = (if name userData = [] then name ex else name userData)
   \<and> organization (apply_patch (merge_patch ex userData) ex)
     = (if organization userData = None \<or> organization userData = Some []
        then organization ex else organization userData)
   \<and> ein (apply_patch (merge_patch ex userData) ex)
     = (if ein userData = None \<or> ein userData = Some [] then ein ex else ein userData)"
  by (auto simp: apply_patch_def merge_patch_def truthy_def or_undefined_def split: option.splits)


text \<open>
  Claim C1. Let the submitted email be the email of a row \<open>ex\<close> of the table, emails and
  ids being unique. Whatever the store answers, \<^verbatim>\<open>saveUser\<close> inserts no row: the ids
  of the table are unchanged and no insert is requested. A user it returns has the
  identity of \<open>ex\<close> and is a row of the table. When the lookup succeeds and \<open>ex\<close> lists
  the generator's application id, \<open>ex\<close> is returned as it is, the table is unchanged and
  the lookup is the only request (no update). When the lookup and the update succeed
  and the id is not listed, the returned user lists it appended to the ids of \<open>ex\<close>.
\<close>

theorem saveUser_existing_email:
  assumes "ex \<in> set (users st)" and "email ex = email userData"
    and "distinct (map email (users st))" and "distinct (map id_user (users st))"
  shows
   "map id_user (users (snd (saveUser b userData st))) = map id_user (users st)
    \<and> (\<forall>row apps. InsertUser row apps \<notin>
          set (drop (length (requests st)) (requests (snd (saveUser b userData st)))))
    \<and> (\<forall>u. fst (saveUser b userData st) = Inr u \<longrightarrow>
          id_user u = id_user ex \<and> email u = email ex \<and> created_at u = created_at ex
          \<and> u \<in> set (users (snd (saveUser b userData st))))
    \<and> (fault b (length (requests st)) = None
        \<and> QR_CODE_GENERATOR \<in> set (or_empty (app_ids ex)) \<longrightarrow>
          saveUser b userData st =
            (Inr ex, st\<lparr>requests := requests st @ [SelectUserByEmail (email userData)]\<rparr>))
    \<and> (fault b (length (requests st)) = None \<and> fault b (Suc (length (requests st))) = None
        \<and> QR_CODE_GENERATOR \<notin> set (or_empty (app_ids ex)) \<longrightarrow>
          (\<exists>u. fst (saveUser b userData st) = Inr u
             \<and> app_ids u = Some (or_empty (app_ids ex) @ [QR_CODE_GENERATOR])))"
proof -
  note s = saveUser_existing [OF assms, of b]
  note m = map_update_unique [OF assms(4) assms(1)]
  have 1: "map id_user (users (snd (saveUser b userData st))) = map id_user (users st)"
    unfolding s using m(1) by (simp add: Let_def issue_def split: option.splits)
  have 2: "\<forall>row apps. InsertUser row apps \<notin>
          set (drop (length (requests st)) (requests (snd (saveUser b userData st))))"
    unfolding s by (simp add: Let_def issue_def split: option.splits)
  have 3: "\<forall>u. fst (saveUser b userData st) = Inr u \<longrightarrow>
          id_user u = id_user ex \<and> email u = email ex \<and> created_at u = created_at ex
          \<and> u \<in> set (users (snd (saveUser b userData st)))"
    unfolding s using m(2) assms(1)
    by (auto simp: Let_def issue_def apply_patch_def split: option.splits)
  have 4: "fault b (length (requests st)) = None
        \<and> QR_CODE_GENERATOR \<in> set (or_empty (app_ids ex)) \<longrightarrow>
          saveUser b userData st =
            (Inr ex, st\<lparr>requests := requests st @ [SelectUserByEmail (email userData)]\<rparr>)"
    unfolding s by (simp add: Let_def issue_def)
  have 5: "fault b (length (requests st)) = None \<and> fault b (Suc (length (requests st))) = None
        \<and> QR_CODE_GENERATOR \<notin> set (or_empty (app_ids ex)) \<longrightarrow>
          (\<exists>u. fst (saveUser b userData st) = Inr u
             \<and> app_ids u = Some (or_empty (app_ids ex) @ [QR_CODE_GENERATOR]))"
    unfolding s by (auto simp: Let_def issue_def apply_patch_def merge_patch_def split: option.splits)
  show ?thesis using 1 2 3 4 5 by blast
qed


text \<open>Witness for C1: \<open>bob\<close> submits again; his row did not list the application id.\<close>

theorem saveUser_existing_email_witness:
  "bob \<in> set (users two_users) \<and> email bob = email bob_again
   \<and> distinct (map email (users two_users)) \<and> distinct (map id_user (users two_users))
   \<and> fault ok_backend (length (requests two_users)) = None
   \<and> fault ok_backend (Suc (length (requests two_users))) = None
   \<and> QR_CODE_GENERATOR \<notin> set (or_empty (app_ids bob))
   \<and> map id_user (users (snd (saveUser ok_backend bob_again two_users))) = [''u1'', ''u7'']
   \<and> fst (saveUser ok_backend bob_again two_users)
       = Inr (bob\<lparr>name := ''Robert'', ein := Some ''12-3456789'',
                  app_ids := Some [''donations-v1'', ''qr-gen-v1'']\<rparr>)"
  using saveUser_existing_email [of bob two_users bob_again ok_backend]
  by (simp add: two_users_def bob_def ann_def bob_again_def ok_backend_def QR_CODE_GENERATOR_def
      saveUser_def select_user_by_email_def update_user_by_id_def issue_def apply_patch_def
      or_undefined_def or_empty_def truthy_def Let_def)


text \<open>
  Claim C4, as stated, fails: \<open>ann\<close> already lists the application id, and her new
  submission carries another name; the row is returned and kept as it was, and the
  lookup is the only request.
\<close>

theorem saveUser_merge_counterexample:
  "saveUser ok_backend ann_again two_users
     = (Inr ann, two_users\<lparr>requests := [SelectUserByEmail ''ann@example.org'']\<rparr>)
   \<and> email ann = email ann_again \<and> name ann_again \<noteq> '''' \<and> name ann \<noteq> name ann_again"
  by (simp add: two_users_def bob_def ann_def ann_again_def ok_backend_def QR_CODE_GENERATOR_def
      saveUser_def select_user_by_email_def issue_def or_undefined_def or_empty_def Let_def)


text \<open>
  Claim C4, amended. Let the submitted email be the email of a row \<open>ex\<close>, emails and ids
  being unique, and let the lookup succeed. When \<open>ex\<close> does not list the generator's
  application id and the update succeeds, the row returned and stored has each
  non-empty submitted field (name, organization, EIN) in place of its own and keeps
  its own where the submission is blank. When \<open>ex\<close> lists the id, it is returned and the
  table is unchanged, whatever the submission holds.
\<close>

theorem saveUser_merges_fields:
  assumes "ex \<in> set (users st)" and "email ex = email userData"
    and "distinct (map email (users st))" and "distinct (map id_user (users st))"
    and "fault b (length (requests st)) = None"
  shows
   "(QR_CODE_GENERATOR \<notin> set (or_empty (app_ids ex))
       \<and> fault b (Suc (length (requests st))) = None \<longrightarrow>
       (\<exists>u. fst (saveUser b userData st) = Inr u
          \<and> u \<in> set (users (snd (saveUser b userData st)))
          \<and> name u = (if name userData = '''' then name ex else name userData)
          \<and> organization u =
              (if organization userData = None \<or> organization userData = Some ''''
               then organization ex else organization userData)
          \<and> ein u =
              (if ein userData = None \<or> ein userData = Some '''' then ein ex else ein userData)))
    \<and> (QR_CODE_GENERATOR \<in> set (or_empty (app_ids ex)) \<longrightarrow>
         fst (saveUser b userData st) = Inr ex
         \<and> users (snd (saveUser b userData st)) = users st)"
proof -
  note s = saveUser_existing [OF assms(1-4), of b]
  note m = map_update_unique [OF assms(4) assms(1)]
  have 1: "QR_CODE_GENERATOR \<notin> set (or_empty (app_ids ex))
       \<and> fault b (Suc (length (requests st))) = None \<longrightarrow>
       (\<exists>u. fst (saveUser b userData st) = Inr u
          \<and> u \<in> set (users (snd (saveUser b userData st)))
          \<and> name u = (if name userData = [] then name ex else name userData)
          \<and> organization u =
              (if organization userData = None \<or> organization userData = Some []
               then organization ex else organization userData)
          \<and> ein u =
              (if ein userData = None \<or> ein userData = Some [] then ein ex else ein userData))"
  proof
    let ?u = "apply_patch (merge_patch ex userData) ex"
    assume a: "QR_CODE_GENERATOR \<notin> set (or_empty (app_ids ex))
       \<and> fault b (Suc (length (requests st))) = None"
    have "fst (saveUser b userData st) = Inr ?u"
      unfolding s using a assms(5) by (simp add: Let_def)
    moreover have "?u \<in> set (users (snd (saveUser b userData st)))"
      unfolding s using a assms(5) m(2) [of "merge_patch ex userData"]
      by (simp add: Let_def issue_def)
    ultimately show "\<exists>u. fst (saveUser b userData st) = Inr u
          \<and> u \<in> set (users (snd (saveUser b userData st)))
          \<and> name u = (if name userData = [] then name ex else name userData)
          \<and> organization u =
              (if organization userData = None \<or> organization userData = Some []
               then organization ex else organization userData)
          \<and> ein u =
              (if ein userData = None \<or> ein userData = Some [] then ein ex else ein userData)"
      using merged_fields [of ex userData] by blast
  qed
  have 2: "QR_CODE_GENERATOR \<in> set (or_empty (app_ids ex)) \<longrightarrow>
         fst (saveUser b userData st) = Inr ex
         \<and> users (snd (saveUser b userData st)) = users st"
    unfolding s using assms(5) by (simp add: Let_def issue_def)
  show ?thesis using 1 2 by blast
qed


text \<open>Witness for C4: \<open>bob\<close> submits a new name and an EIN, and leaves the organization blank.\<close>

theorem saveUser_merges_fields_witness:
  "bob \<in> set (users two_users) \<and> email bob = email bob_again
   \<and> distinct (map email (users two_users)) \<and> distinct (map id_user (users two_users))
   \<and> fault ok_backend (length (requests two_users)) = None
   \<and> fault ok_backend (Suc (length (requests two_users))) = None
   \<and> QR_CODE_GENERATOR \<notin> set (or_empty (app_ids bob))
   \<and> organization bob_again = Some ''''
   \<and> users (snd (saveUser ok_backend bob_again two_users))
       = [ann, bob\<lparr>name := ''Robert'', ein := Some ''12-3456789'',
                    app_ids := Some [''donations-v1'', ''qr-gen-v1'']\<rparr>]"
  using saveUser_merges_fields [of bob two_users bob_again ok_backend]
  by (simp add: two_users_def bob_def ann_def bob_again_def ok_backend_def QR_CODE_GENERATOR_def
      saveUser_def select_user_by_email_def update_user_by_id_def issue_def apply_patch_def
      or_undefined_def or_empty_def truthy_def Let_def)


text \<open>
  Claim C3 does not hold of the code. For a submission whose email is in the table,
  \<^verbatim>\<open>saveUser\<close> succeeds and returns from inside the branch of the existing user: its
  requests are the lookup (for \<open>ann\<close>) or the lookup and the update (for \<open>bob\<close>), and no
  upsert of a visit. Only a new email (\<open>cal\<close>) reaches the upsert, after the insert.
\<close>

theorem saveUser_existing_skips_visit:
  "fst (saveUser ok_backend ann_again two_users) = Inr ann
   \<and> requests (snd (saveUser ok_backend ann_again two_users))
       = [SelectUserByEmail ''ann@example.org'']
   \<and> fst (saveUser ok_backend bob_again two_users)
       = Inr (bob\<lparr>name := ''Robert'', ein := Some ''12-3456789'',
                  app_ids := Some [''donations-v1'', ''qr-gen-v1'']\<rparr>)
   \<and> requests (snd (saveUser ok_backend bob_again two_users))
       = [SelectUserByEmail ''bob@example.org'',
          UpdateUserById ''u7''
            \<lparr>patch_app_ids = [''donations-v1'', ''qr-gen-v1''], patch_name = Some ''Robert'',
             patch_organization = None, patch_ein = Some ''12-3456789''\<rparr>]
   \<and> requests (snd (saveUser ok_backend cal two_users))
       = [SelectUserByEmail ''cal@example.org'',
          InsertUser cal [''qr-gen-v1''],
          UpsertVisit ''u2'' ''qr-gen-v1'' 1 ''2025-01-01T00:00:00.000Z'']"
  by (simp add: two_users_def bob_def ann_def bob_again_def ann_again_def cal_def ok_backend_def
      QR_CODE_GENERATOR_def saveUser_def select_user_by_email_def update_user_by_id_def
      insert_user_def updateVisit_def upsert_visit_def issue_def apply_patch_def
      or_undefined_def or_empty_def truthy_def Let_def)


text \<open>The same for every table with unique emails and ids, and every backend.\<close>

lemma saveUser_existing_no_visit:
  assumes "ex \<in> set (users st)" and "email ex = email userData"
    and "distinct (map email (users st))" and "distinct (map id_user (users st))"
  shows "UpsertVisit uid aid c ts \<notin>
           set (drop (length (requests st)) (requests (snd (saveUser b userData st))))"
  unfolding saveUser_existing [OF assms, of b]
  by (simp add: Let_def issue_def split: option.splits)


section \<open>Recording a visit\<close>

text \<open>
  Claim C5. \<^verbatim>\<open>updateVisit\<close> never raises: its result is a value for every user id,
  application id, store and backend. When a parameter is empty or the upsert fails, the
  value is \<^verbatim>\<open>null\<close>.
\<close>

theorem updateVisit_never_raises:
  "(\<exists>r. fst (updateVisit b userId appId st) = Inr r)
   \<and> (userId = '''' \<or> appId = '''' \<or> fault b (length (requests st)) \<noteq> None
        \<longrightarrow> fst (updateVisit b userId appId st) = Inr None)
   \<and> (userId = '''' \<or> appId = '''' \<longrightarrow> snd (updateVisit b userId appId st) = st)"
  by (auto simp: updateVisit_def upsert_visit_def Let_def split: option.splits)

text \<open>Witness for C5: the upsert fails on a backend where every request fails.\<close>

theorem updateVisit_never_raises_witness:
  "fault failing_backend (length (requests \<lparr>users = [], requests = []\<rparr>)) \<noteq> None
   \<and> fst (updateVisit failing_backend ''u1'' QR_CODE_GENERATOR \<lparr>users = [], requests = []\<rparr>) = Inr None
   \<and> snd (updateVisit failing_backend '''' QR_CODE_GENERATOR \<lparr>users = [], requests = []\<rparr>)
       = \<lparr>users = [], requests = []\<rparr>"
  using updateVisit_never_raises [of failing_backend "''u1''" QR_CODE_GENERATOR "\<lparr>users = [], requests = []\<rparr>"]
    updateVisit_never_raises [of failing_backend "''''" QR_CODE_GENERATOR "\<lparr>users = [], requests = []\<rparr>"]
  by (simp add: failing_backend_def)

section \<open>Taking in a logo\<close>

lemma processImage_rejects:
  assumes "\<not> startsWith (file_type f) ''image/'' \<or> file_size f > 5 * 1024 * 1024
           \<or> (\<exists>w h. decode br f = Some (w, h) \<and> (w < 100 \<or> h < 100 \<or> w > 2000 \<or> h > 2000))"
  shows "error_logo (processImage br f st) \<noteq> '''' \<and> onLogoChange (processImage br f st) = onLogoChange st"
  using assms by (auto simp: processImage_def validateImage_def split: if_splits)

lemma processImage_accepts:
  assumes "startsWith (file_type f) ''image/''" and "file_size f \<le> 5 * 1024 * 1024"
    and "decode br f = Some (w, h)" and "100 \<le> w" "w \<le> 2000" "100 \<le> h" "h \<le> 2000"
    and "imageCompression br f = Inr g" and "readAsDataURL br g = Some dataUrl"
  shows "processImage br f st =
           st\<lparr>error_logo := '''', preview := Some dataUrl, onLogoChange := onLogoChange st @ [Some dataUrl]\<rparr>"
  using assms by (simp add: processImage_def validateImage_def Let_def)


text \<open>
  Claim C7. A file whose MIME type does not start with \<^verbatim>\<open>image/\<close>, or whose size
  exceeds 5 MB, or whose decoded width or height is below 100 or above 2000, leaves
  an error message and no call of \<^verbatim>\<open>onLogoChange\<close>. A file of type \<^verbatim>\<open>image/png\<close> and
  of 1 MB that decodes to 500 by 500 passes every check; when the compression and the
  reading of the result succeed, the callback is called once, with the data URL.
\<close>

theorem processImage_logo_intake:
  "(\<not> startsWith (file_type f) ''image/'' \<or> file_size f > 5 * 1024 * 1024
      \<or> (\<exists>w h. decode br f = Some (w, h) \<and> (w < 100 \<or> h < 100 \<or> w > 2000 \<or> h > 2000))
     \<longrightarrow> error_logo (processImage br f st) \<noteq> ''''
         \<and> onLogoChange (processImage br f st) = onLogoChange st)
   \<and> (decode br \<lparr>file_type = ''image/png'', file_size = 1024 * 1024\<rparr> = Some (500, 500)
       \<and> imageCompression br \<lparr>file_type = ''image/png'', file_size = 1024 * 1024\<rparr> = Inr g
       \<and> readAsDataURL br g = Some dataUrl
     \<longrightarrow> onLogoChange (processImage br \<lparr>file_type = ''image/png'', file_size = 1024 * 1024\<rparr> st)
           = onLogoChange st @ [Some dataUrl]
         \<and> preview (processImage br \<lparr>file_type = ''image/png'', file_size = 1024 * 1024\<rparr> st)
           = Some dataUrl
         \<and> error_logo (processImage br \<lparr>file_type = ''image/png'', file_size = 1024 * 1024\<rparr> st) = '''')"
proof (intro conjI impI)
  assume "\<not> startsWith (file_type f) ''image/'' \<or> file_size f > 5 * 1024 * 1024
      \<or> (\<exists>w h. decode br f = Some (w, h) \<and> (w < 100 \<or> h < 100 \<or> w > 2000 \<or> h > 2000))"
  then show "error_logo (processImage br f st) \<noteq> ''''"
    and "onLogoChange (processImage br f st) = onLogoChange st"
    using processImage_rejects [of f br st] by simp_all
next
  let ?f = "\<lparr>file_type = ''image/png'', file_size = 1024 * 1024\<rparr>"
  assume a: "decode br ?f = Some (500, 500) \<and> imageCompression br ?f = Inr g \<and> readAsDataURL br g = Some dataUrl"
  have "processImage br ?f st =
           st\<lparr>error_logo := '''', preview := Some dataUrl, onLogoChange := onLogoChange st @ [Some dataUrl]\<rparr>"
    using a by (intro processImage_accepts [where w = 500 and h = 500 and g = g])
      (simp_all add: startsWith_def)
  then show "onLogoChange (processImage br ?f st) = onLogoChange st @ [Some dataUrl]"
    and "preview (processImage br ?f st) = Some dataUrl"
    and "error_logo (processImage br ?f st) = ''''"
    by simp_all
qed


text \<open>
  Witness for C7: a file that decodes to 50 by 50 is refused as too small, and the
  file of 1 MB that decodes to 500 by 500 is handed to the callback as a data URL.
\<close>

theorem processImage_logo_intake_witness:
  "decode test_browser \<lparr>file_type = ''image/png'', file_size = 2048\<rparr> = Some (50, 50)
   \<and> error_logo (processImage test_browser \<lparr>file_type = ''image/png'', file_size = 2048\<rparr> empty_logo)
       = ''Image must be at least 100x100 pixels''
   \<and> onLogoChange (processImage test_browser \<lparr>file_type = ''image/png'', file_size = 2048\<rparr> empty_logo) = []
   \<and> onLogoChange (processImage test_browser \<lparr>file_type = ''image/png'', file_size = 1024 * 1024\<rparr> empty_logo)
       = [Some ''data:image/png;base64,iVBORw0KGgo='']"
  using processImage_logo_intake [of "\<lparr>file_type = ''image/png'', file_size = 2048\<rparr>" test_browser
      empty_logo "\<lparr>file_type = ''image/png'', file_size = 1000\<rparr>" "''data:image/png;base64,iVBORw0KGgo=''"]
  by (simp add: test_browser_def empty_logo_def processImage_def validateImage_def startsWith_def Let_def)


section \<open>Rounding to a double\<close>

lemma two_powi_pos: "0 < (2::rat) powi k"
  by simp

lemma two_powi_mono: "a \<le> b \<Longrightarrow> (2::rat) powi a \<le> 2 powi b"
  by (rule power_int_increasing) simp_all

lemma two_powi_less: "(2::rat) powi a < 2 powi b \<Longrightarrow> a < b"
  using two_powi_mono [of b a] by (cases "a < b") simp_all

lemma two_powi_split: "(2::rat) powi (a - b) = 2 powi a / 2 powi b"
  by (simp add: power_int_diff)

lemma shift_53: "of_int (2 ^ 53) * (2::rat) powi (e - 52) = 2 powi (e + 1)"
proof -
  have "(2::rat) powi (53 + (e - 52)) = 2 powi 53 * 2 powi (e - 52)"
    by (rule power_int_add) simp
  moreover have "53 + (e - 52) = e + 1" by simp
  ultimately show ?thesis by simp
qed

lemma shift_52: "of_int (2 ^ 52) * (2::rat) powi (e - 52) = 2 powi e"
proof -
  have "(2::rat) powi (52 + (e - 52)) = 2 powi 52 * 2 powi (e - 52)"
    by (rule power_int_add) simp
  moreover have "52 + (e - 52) = e" by simp
  ultimately show ?thesis by simp
qed

lemma bitlen_rat_bounds:
  assumes "0 < p"
  shows "(2::rat) powi (bitlen p - 1) \<le> of_int p" and "of_int p < (2::rat) powi bitlen p"
proof -
  have b: "1 \<le> bitlen p" using assms by (simp add: bitlen_alt_def)
  have "(2::int) ^ nat (bitlen p - 1) \<le> p" using bitlen_bounds [OF assms] by simp
  then have "(of_int ((2::int) ^ nat (bitlen p - 1)) :: rat) \<le> of_int p"
    by (simp only: of_int_le_iff)
  then show "(2::rat) powi (bitlen p - 1) \<le> of_int p"
    using b by (simp add: power_int_def)
  have "p < (2::int) ^ nat (bitlen p)" using bitlen_bounds [OF assms] by simp
  then have "(of_int p :: rat) < of_int ((2::int) ^ nat (bitlen p))"
    by (simp only: of_int_less_iff)
  then show "of_int p < (2::rat) powi bitlen p"
    using b by (simp add: power_int_def)
qed

lemma exponent_bounds:
  assumes "0 < x"
  shows "2 powi exponent x \<le> x" and "x < 2 powi (exponent x + 1)"
proof -
  obtain p q where pq: "quotient_of x = (p, q)" by (cases "quotient_of x")
  have q: "0 < q" using quotient_of_denom_pos [OF pq] .
  have x: "x = of_int p / of_int q" using quotient_of_div [OF pq] .
  have p: "0 < p" using assms q unfolding x by (simp add: zero_less_divide_iff)
  define d where "d = bitlen p - bitlen q"
  have e: "exponent x = (if 2 powi d \<le> x then d else d - 1)"
    by (simp add: exponent_def pq d_def)
  have qr: "0 < (of_int q :: rat)" using q by simp
  have "x < 2 powi bitlen p / of_int q"
    unfolding x using bitlen_rat_bounds(2) [OF p] qr by (simp add: divide_strict_right_mono)
  also have "\<dots> \<le> 2 powi bitlen p / 2 powi (bitlen q - 1)"
    using bitlen_rat_bounds(1) [OF q] q by (intro divide_left_mono mult_pos_pos) simp_all
  also have "\<dots> = 2 powi (bitlen p - (bitlen q - 1))"
    by (simp only: two_powi_split)
  also have "bitlen p - (bitlen q - 1) = d + 1" by (simp add: d_def)
  finally have up: "x < 2 powi (d + 1)" .
  have "d - 1 = (bitlen p - 1) - bitlen q" by (simp add: d_def)
  then have "(2::rat) powi (d - 1) = 2 powi (bitlen p - 1) / 2 powi bitlen q"
    by (simp only: two_powi_split)
  also have "\<dots> \<le> of_int p / 2 powi bitlen q"
    using bitlen_rat_bounds(1) [OF p] by (simp add: divide_right_mono)
  also have "\<dots> \<le> x"
    unfolding x using bitlen_rat_bounds(2) [OF q] p qr
    by (intro divide_left_mono mult_pos_pos) simp_all
  finally have lo: "2 powi (d - 1) \<le> x" .
  show "2 powi exponent x \<le> x" using lo by (simp add: e)
  show "x < 2 powi (exponent x + 1)" using up by (auto simp: e not_le)
qed

lemma exponent_mono:
  assumes "0 < x" and "x \<le> y"
  shows "exponent x \<le> exponent y"
proof -
  have "2 powi exponent x \<le> x" using exponent_bounds(1) [OF assms(1)] .
  also have "x \<le> y" by fact
  also have "y < 2 powi (exponent y + 1)" using exponent_bounds(2) [of y] assms by simp
  finally have "exponent x < exponent y + 1" by (rule two_powi_less)
  then show ?thesis by simp
qed

lemma exponent_unique:
  assumes "0 < x" and "2 powi e \<le> x" and "x < 2 powi (e + 1)"
  shows "exponent x = e"
proof -
  have "2 powi exponent x \<le> x" using exponent_bounds(1) [OF assms(1)] .
  also have "x < 2 powi (e + 1)" by fact
  finally have a: "exponent x < e + 1" by (rule two_powi_less)
  have "2 powi e \<le> x" by fact
  also have "x < 2 powi (exponent x + 1)" using exponent_bounds(2) [OF assms(1)] .
  finally have "e < exponent x + 1" by (rule two_powi_less)
  then show ?thesis using a by simp
qed


lemma exponent_ge: "0 < x \<Longrightarrow> 2 powi k \<le> x \<Longrightarrow> k \<le> exponent x"
proof -
  assume "0 < x" and "2 powi k \<le> x"
  then have "(2::rat) powi k < 2 powi (exponent x + 1)"
    using exponent_bounds(2) [of x] by simp
  then have "k < exponent x + 1" by (rule two_powi_less)
  then show ?thesis by simp
qed

lemma exponent_nonneg: "1 \<le> x \<Longrightarrow> 0 \<le> exponent x"
proof -
  assume "1 \<le> x"
  then have "2 powi 0 \<le> x" and "0 < x" by simp_all
  moreover have "x < 2 powi (exponent x + 1)" using exponent_bounds(2) [of x] \<open>0 < x\<close> by simp
  ultimately have "(2::rat) powi 0 < 2 powi (exponent x + 1)" by simp
  then have "0 < exponent x + 1" by (rule two_powi_less)
  then show ?thesis by simp
qed


lemma round_even_range: "\<lfloor>x\<rfloor> \<le> round_even x \<and> round_even x \<le> \<lfloor>x\<rfloor> + 1"
  by (simp add: round_even_def Let_def)

lemma round_even_of_int: "round_even (of_int n) = n"
  by (simp add: round_even_def Let_def)

lemma round_even_mono:
  assumes "x \<le> y"
  shows "round_even x \<le> round_even y"
proof (cases "\<lfloor>x\<rfloor> = \<lfloor>y\<rfloor>")
  case True
  then show ?thesis using assms by (auto simp: round_even_def Let_def)
next
  case False
  then have "\<lfloor>x\<rfloor> + 1 \<le> \<lfloor>y\<rfloor>" using floor_mono [OF assms] by simp
  then show ?thesis
    using round_even_range [of x] round_even_range [of y] by linarith
qed


lemma round_even_error: "\<bar>of_int (round_even t) - t\<bar> \<le> 1 / 2"
proof -
  have "of_int \<lfloor>t\<rfloor> \<le> t" and "t < of_int \<lfloor>t\<rfloor> + 1" by linarith+
  then show ?thesis by (auto simp: round_even_def Let_def abs_le_iff)
qed


lemma round_even_fraction:
  assumes "0 < q"
  shows "round_even (of_int p / of_int q) =
     (if 2 * (p mod q) < q then p div q
      else if q < 2 * (p mod q) then p div q + 1
      else if even (p div q) then p div q else p div q + 1)"
proof -
  have f: "\<lfloor>(of_int p / of_int q :: rat)\<rfloor> = p div q"
    by (rule floor_divide_of_int_eq)
  have "(of_int p :: rat) = of_int (p div q * q + p mod q)" by simp
  then have "(of_int p :: rat) = of_int (p div q) * of_int q + of_int (p mod q)"
    by (simp only: of_int_add of_int_mult)
  then have d: "(of_int p / of_int q :: rat) - of_int (p div q) = of_int (p mod q) / of_int q"
    using assms by (simp add: field_simps)
  have lt: "(of_int (p mod q) / of_int q :: rat) < 1 / 2 \<longleftrightarrow> 2 * (p mod q) < q"
  proof -
    have "(of_int (p mod q) / of_int q :: rat) < 1 / 2 \<longleftrightarrow>
        (of_int (2 * (p mod q)) :: rat) < of_int q"
      using assms by (simp add: field_simps)
    then show ?thesis by (simp only: of_int_less_iff)
  qed
  have gt: "1 / 2 < (of_int (p mod q) / of_int q :: rat) \<longleftrightarrow> q < 2 * (p mod q)"
  proof -
    have "1 / 2 < (of_int (p mod q) / of_int q :: rat) \<longleftrightarrow>
        (of_int q :: rat) < of_int (2 * (p mod q))"
      using assms by (simp add: field_simps)
    then show ?thesis by (simp only: of_int_less_iff)
  qed
  show ?thesis
    unfolding round_even_def Let_def f d lt gt by simp
qed

lemma round_even_numerals:
  "round_even (numeral a / numeral b) =
     (if 2 * (numeral a mod numeral b) < (numeral b :: int) then numeral a div numeral b
      else if (numeral b :: int) < 2 * (numeral a mod numeral b) then numeral a div numeral b + 1
      else if even (numeral a div numeral b :: int) then numeral a div numeral b
      else numeral a div numeral b + 1)"
  "round_even (numeral a) = numeral a"
  using round_even_fraction [of "numeral b" "numeral a"] round_even_of_int [of "numeral a"]
  by simp_all


lemma round_magnitude_mono:
  assumes "0 < x" and "x \<le> y"
  shows "round_magnitude x \<le> round_magnitude y"
proof -
  define ex where "ex = max (exponent x) (- 1022)"
  define ey where "ey = max (exponent y) (- 1022)"
  have y: "0 < y" using assms by simp
  have le: "ex \<le> ey" using exponent_mono [OF assms] by (simp add: ex_def ey_def)
  have rx: "round_magnitude x = of_int (round_even (x / 2 powi (ex - 52))) * 2 powi (ex - 52)"
    by (simp add: round_magnitude_def ex_def Let_def)
  have ry: "round_magnitude y = of_int (round_even (y / 2 powi (ey - 52))) * 2 powi (ey - 52)"
    by (simp add: round_magnitude_def ey_def Let_def)
  show ?thesis
  proof (cases "ex = ey")
    case True
    have "x / 2 powi (ey - 52) \<le> y / 2 powi (ey - 52)"
      using assms(2) by (simp add: divide_right_mono)
    then have "round_even (x / 2 powi (ey - 52)) \<le> round_even (y / 2 powi (ey - 52))"
      by (rule round_even_mono)
    then show ?thesis unfolding rx ry True by (simp add: mult_right_mono)
  next
    case False
    then have lt: "ex + 1 \<le> ey" using le by simp
    then have eyy: "ey = exponent y" by (auto simp: ey_def ex_def max_def split: if_splits)
    have "x < 2 powi (exponent x + 1)" using exponent_bounds(2) [OF assms(1)] .
    also have "\<dots> \<le> 2 powi (ex + 1)" by (intro two_powi_mono) (simp add: ex_def)
    finally have "x / 2 powi (ex - 52) \<le> 2 powi (ex + 1) / 2 powi (ex - 52)"
      by (simp add: divide_right_mono)
    also have "\<dots> = (of_int (2 ^ 53) :: rat)"
      by (simp add: two_powi_split [symmetric])
    finally have "round_even (x / 2 powi (ex - 52)) \<le> round_even (of_int (2 ^ 53))"
      by (rule round_even_mono)
    then have "round_even (x / 2 powi (ex - 52)) \<le> 2 ^ 53"
      by (simp only: round_even_of_int)
    then have "(of_int (round_even (x / 2 powi (ex - 52))) :: rat) \<le> of_int (2 ^ 53)"
      by (simp only: of_int_le_iff)
    then have "round_magnitude x \<le> of_int (2 ^ 53) * 2 powi (ex - 52)"
      unfolding rx by (intro mult_right_mono) simp_all
    also have "\<dots> = 2 powi (ex + 1)" by (rule shift_53)
    finally have a: "round_magnitude x \<le> 2 powi (ex + 1)" .
    have "(of_int (2 ^ 52) :: rat) = 2 powi ey / 2 powi (ey - 52)"
      by (simp add: two_powi_split [symmetric])
    also have "\<dots> \<le> y / 2 powi (ey - 52)"
      using exponent_bounds(1) [OF y] by (simp add: eyy divide_right_mono)
    finally have "round_even (of_int (2 ^ 52)) \<le> round_even (y / 2 powi (ey - 52))"
      by (rule round_even_mono)
    then have "2 ^ 52 \<le> round_even (y / 2 powi (ey - 52))"
      by (simp only: round_even_of_int)
    then have "(of_int (2 ^ 52) :: rat) \<le> of_int (round_even (y / 2 powi (ey - 52)))"
      by (simp only: of_int_le_iff)
    then have "of_int (2 ^ 52) * 2 powi (ey - 52) \<le> round_magnitude y"
      unfolding ry by (intro mult_right_mono) simp_all
    then have b: "2 powi ey \<le> round_magnitude y" by (simp only: shift_52)
    have "(2::rat) powi (ex + 1) \<le> 2 powi ey" using lt by (rule two_powi_mono)
    then show ?thesis using a b by simp
  qed
qed


lemma round_magnitude_error:
  assumes "0 < x" and "- 1022 \<le> exponent x"
  shows "\<bar>round_magnitude x - x\<bar> \<le> x / 2 ^ 53"
proof -
  define u :: rat where "u = 2 powi (exponent x - 52)"
  have u: "0 < u" by (simp add: u_def)
  have r: "round_magnitude x = of_int (round_even (x / u)) * u"
    using assms(2) by (simp add: round_magnitude_def Let_def max_def u_def)
  have "round_magnitude x - x = (of_int (round_even (x / u)) - x / u) * u"
    using u by (simp add: r field_simps)
  then have "\<bar>round_magnitude x - x\<bar> = \<bar>of_int (round_even (x / u)) - x / u\<bar> * u"
    using u by (simp add: abs_mult)
  also have "\<dots> \<le> 1 / 2 * u"
    using round_even_error [of "x / u"] u by (intro mult_right_mono) simp_all
  also have "1 / 2 * u = 2 powi exponent x / 2 ^ 53"
  proof -
    have "(2::rat) powi (exponent x - 52) = 2 powi exponent x / 2 powi 52"
      by (rule two_powi_split)
    then show ?thesis by (simp add: u_def)
  qed
  also have "\<dots> \<le> x / 2 ^ 53"
    using exponent_bounds(1) [OF assms(1)] by (simp add: divide_right_mono)
  finally show ?thesis .
qed

lemma to_number_finite:
  "0 < x \<Longrightarrow> round_magnitude x < 2 powi 1024 \<Longrightarrow> to_number x = Finite (round_magnitude x)"
  by (simp add: to_number_def Let_def)


lemma to_number_eval:
  assumes "0 < x" and "2 powi e \<le> x" and "x < 2 powi (e + 1)" and "- 1022 \<le> e"
    and "round_even (x / 2 powi (e - 52)) = m" and "r = of_int m * 2 powi (e - 52)"
    and "r < 2 powi 1024"
  shows "to_number x = Finite r"
proof -
  have "exponent x = e" using assms(1-3) by (rule exponent_unique)
  then have "round_magnitude x = r"
    using assms(4-6) by (simp add: round_magnitude_def Let_def max_def)
  then show ?thesis using assms(1,7) by (simp add: to_number_def Let_def)
qed

lemma literal_values:
  "to_number (17 / 2) = Finite (17 / 2)" "to_number 11 = Finite 11" "to_number 2 = Finite 2"
  "to_number (1 / 2) = Finite (1 / 2)" "to_number 1 = Finite 1" "to_number (15 / 2) = Finite (15 / 2)"
  "to_number 10 = Finite 10"
proof -
  show "to_number (17 / 2) = Finite (17 / 2)"
    by (rule to_number_eval [where e = 3 and m = "17 * 2 ^ 48"]) (simp_all add: round_even_def)
  show "to_number 11 = Finite 11"
    by (rule to_number_eval [where e = 3 and m = "11 * 2 ^ 49"]) (simp_all add: round_even_def)
  show "to_number 2 = Finite 2"
    by (rule to_number_eval [where e = 1 and m = "2 ^ 52"]) (simp_all add: round_even_def)
  show "to_number (1 / 2) = Finite (1 / 2)"
    by (rule to_number_eval [where e = "- 1" and m = "2 ^ 52"]) (simp_all add: round_even_def)
  show "to_number 1 = Finite 1"
    by (rule to_number_eval [where e = 0 and m = "2 ^ 52"]) (simp_all add: round_even_def)
  show "to_number (15 / 2) = Finite (15 / 2)"
    by (rule to_number_eval [where e = 2 and m = "15 * 2 ^ 49"]) (simp_all add: round_even_def)
  show "to_number 10 = Finite 10"
    by (rule to_number_eval [where e = 3 and m = "5 * 2 ^ 50"]) (simp_all add: round_even_def)
qed

lemma round_magnitude_1: "round_magnitude 1 = 1"
  using literal_values(5) by (simp add: to_number_def Let_def split: if_splits)

lemma round_magnitude_15_2: "round_magnitude (15 / 2) = 15 / 2"
  using literal_values(6) by (simp add: to_number_def Let_def split: if_splits)


lemma round_magnitude_11: "round_magnitude 11 = 11"
  using literal_values(2) by (simp add: to_number_def Let_def split: if_splits)


lemma round_magnitude_ge_1: "1 \<le> x \<Longrightarrow> 1 \<le> round_magnitude x"
  using round_magnitude_mono [of 1 x] by (simp add: round_magnitude_1)

lemma round_magnitude_le_15_2:
  "0 < x \<Longrightarrow> x \<le> 15 / 2 \<Longrightarrow> round_magnitude x \<le> 15 / 2"
  using round_magnitude_mono [of x "15 / 2"] by (simp only: round_magnitude_15_2)

lemma to_number_ge_1: "1 \<le> x \<Longrightarrow> at_least_one (to_number x)"
  using round_magnitude_ge_1 [of x] by (simp add: to_number_def at_least_one_def Let_def)


lemma to_number_small_nat:
  assumes "n < 2 ^ 53"
  shows "to_number (of_nat n) = Finite (of_nat n)"
proof (cases "n = 0")
  case True
  then show ?thesis by (simp add: to_number_def)
next
  case False
  define p where "p = int n"
  have p: "0 < p" "p < 2 ^ 53" using False assms by (simp_all add: p_def)
  have x: "(of_nat n :: rat) = of_int p" by (simp add: p_def)
  have b1: "1 \<le> bitlen p" using p by (simp add: bitlen_alt_def)
  have b53: "bitlen p \<le> 53" using p by (simp add: bitlen_le_iff_power)
  have e: "exponent (of_int p) = bitlen p - 1"
    using bitlen_rat_bounds [OF p(1)] p(1)
    by (intro exponent_unique) simp_all
  define k where "k = nat (53 - bitlen p)"
  have "(2::rat) powi (bitlen p - 1 - 52) = 1 / 2 ^ k"
    using b53 by (simp add: k_def power_int_def nat_diff_distrib field_simps)
  then have s: "of_int p / (2::rat) powi (bitlen p - 1 - 52) = of_int (p * 2 ^ k)"
    by simp
  have m: "max (bitlen p - 1) (- 1022) = bitlen p - 1" using b1 by simp
  have "round_magnitude (of_int p) = of_int (p * 2 ^ k) * 2 powi (bitlen p - 1 - 52)"
    by (simp only: round_magnitude_def Let_def e m s round_even_of_int)
  also have "\<dots> = of_int p"
    using \<open>(2::rat) powi (bitlen p - 1 - 52) = 1 / 2 ^ k\<close> by simp
  finally have r: "round_magnitude (of_int p) = of_int p" .
  have "(of_int p :: rat) < of_int (2 ^ 53)" using p(2) by (simp only: of_int_less_iff)
  then have "(of_int p :: rat) < 2 powi 1024" by simp
  then show ?thesis using p(1) unfolding x by (simp add: to_number_def Let_def r)
qed


section \<open>The placement of the image on the PDF page\<close>

text \<open>
  For an image wider than high the aspect ratio is at least one (or infinite, or not a
  number, at sizes no image has), so the height stays below the cap of 10 inches.
\<close>

lemma aspectRatio_at_least_one:
  assumes "h < w"
  shows "at_least_one (num_div (to_number (of_nat w)) (to_number (of_nat h)))"
proof (cases "h = 0")
  case True
  have "1 \<le> (of_nat w :: rat)" using assms by simp
  then have "1 \<le> round_magnitude (of_nat w)" by (rule round_magnitude_ge_1)
  then show ?thesis
    using assms True by (simp add: to_number_def at_least_one_def Let_def)
next
  case False
  then have h1: "1 \<le> (of_nat h :: rat)" by simp
  have hw: "(of_nat h :: rat) \<le> of_nat w" using assms by simp
  have a1: "1 \<le> round_magnitude (of_nat h)" using h1 by (rule round_magnitude_ge_1)
  have m: "round_magnitude (of_nat h) \<le> round_magnitude (of_nat w)"
    using h1 hw by (intro round_magnitude_mono) simp_all
  have H: "to_number (of_nat h) =
      (if 2 powi 1024 \<le> round_magnitude (of_nat h) then PlusInfinity
       else Finite (round_magnitude (of_nat h)))"
    using False by (simp add: to_number_def Let_def)
  have W: "to_number (of_nat w) =
      (if 2 powi 1024 \<le> round_magnitude (of_nat w) then PlusInfinity
       else Finite (round_magnitude (of_nat w)))"
    using assms by (simp add: to_number_def Let_def)
  show ?thesis
  proof (cases "2 powi 1024 \<le> round_magnitude (of_nat w)")
    case True
    then show ?thesis using a1 unfolding H W by (simp add: at_least_one_def)
  next
    case fin: False
    then have fh: "\<not> 2 powi 1024 \<le> round_magnitude (of_nat h)" using m by simp
    have "1 \<le> round_magnitude (of_nat w) / round_magnitude (of_nat h)"
      using a1 m by simp
    then have "at_least_one (to_number (round_magnitude (of_nat w) / round_magnitude (of_nat h)))"
      by (rule to_number_ge_1)
    then show ?thesis using a1 fin fh unfolding H W by simp
  qed
qed

lemma height_below_cap:
  assumes "at_least_one a"
  shows "\<not> num_gt (num_div (Finite 7.5) a) (Finite 10)"
proof (cases a)
  case (Finite c)
  then have c: "1 \<le> c" using assms by (simp add: at_least_one_def)
  then have p: "0 < 15 / 2 / c" and "15 / 2 / c \<le> 15 / 2" by (simp_all add: divide_le_eq)
  then have "round_magnitude (15 / 2 / c) \<le> 15 / 2" by (rule round_magnitude_le_15_2)
  moreover have "(15 / 2 :: rat) < 2 powi 1024" by simp
  ultimately have "to_number (15 / 2 / c) = Finite (round_magnitude (15 / 2 / c))"
    using p by (simp add: to_number_def Let_def)
  then show ?thesis
    using c Finite \<open>round_magnitude (15 / 2 / c) \<le> 15 / 2\<close> by simp
qed (use assms in \<open>simp_all add: at_least_one_def\<close>)


lemma pdf_placement_wide:
  assumes "h < w"
  shows "pdf_placement w h =
      \<lparr>x_in = Finite (1 / 2),
       y_in = num_div (num_sub (Finite 11)
                (num_div (Finite (15 / 2)) (num_div (to_number (of_nat w)) (to_number (of_nat h)))))
                (Finite 2),
       width_in = Finite (15 / 2),
       height_in = num_div (Finite (15 / 2)) (num_div (to_number (of_nat w)) (to_number (of_nat h)))\<rparr>"
proof -
  define a where "a = num_div (to_number (of_nat w)) (to_number (of_nat h))"
  have cap: "\<not> num_gt (num_div (Finite (15 / 2)) a) (Finite 10)"
    unfolding a_def using aspectRatio_at_least_one [OF assms] height_below_cap by simp
  show ?thesis
    using cap
    by (simp add: pdf_placement_def Let_def a_def [symmetric] literal_values)
qed


text \<open>
  The computed height and offset are within rounding of the exact ones.
\<close>

lemma height_nearly_proportional:
  assumes "0 < h" and "h < w" and "w < 2 ^ 53"
  shows "\<exists>q. num_div (Finite (15 / 2)) (num_div (to_number (of_nat w)) (to_number (of_nat h)))
               = Finite q
           \<and> 0 < q \<and> q \<le> 15 / 2
           \<and> \<bar>q * of_nat w - 15 / 2 * of_nat h\<bar> \<le> 15 / 2 * of_nat h / 2 ^ 51"
proof -
  define W :: rat where "W = of_nat w"
  define H :: rat where "H = of_nat h"
  define a where "a = round_magnitude (W / H)"
  define q where "q = round_magnitude (15 / 2 / a)"
  define e :: rat where "e = 1 / 2 ^ 53"
  have H: "0 < H" using assms(1) by (simp add: H_def)
  have HW: "H < W" using assms(2) by (simp add: W_def H_def)
  have "(of_nat w :: rat) < of_nat (2 ^ 53)" using assms(3) by (simp only: of_nat_less_iff)
  then have W53: "W < 2 ^ 53" by (simp add: W_def)
  have W: "0 < W" using H HW by simp
  have x1: "1 \<le> W / H" using H HW by simp
  have a1: "1 \<le> a" unfolding a_def using x1 by (rule round_magnitude_ge_1)
  have ea: "\<bar>a - W / H\<bar> \<le> W / H / 2 ^ 53"
    unfolding a_def using x1 exponent_nonneg [OF x1] by (intro round_magnitude_error) simp_all
  have "1 \<le> H" using assms(1) by (simp add: H_def)
  then have "W / H \<le> W / 1" using W by (intro divide_left_mono) simp_all
  then have "W / H < 2 ^ 53" using W53 by simp
  then have a_up: "a < 2 ^ 54" using ea by (simp add: abs_le_iff field_simps)
  have tW: "to_number (of_nat w) = Finite W"
    unfolding W_def using assms(3) by (rule to_number_small_nat)
  have tH: "to_number (of_nat h) = Finite H"
    unfolding H_def using assms(2,3) by (intro to_number_small_nat) simp
  have "a < 2 powi 1024" using a_up by simp
  then have ta: "to_number (W / H) = Finite a"
    unfolding a_def using x1 by (intro to_number_finite) simp_all
  have a0': "0 < a" using a1 by simp
  have x2: "0 < 15 / 2 / a" "15 / 2 / a \<le> 15 / 2" using a1 by (simp_all add: divide_le_eq)
  have "2 powi (- 52) \<le> 15 / 2 / a"
    using a_up a1 by (simp add: power_int_minus field_simps)
  then have "- 52 \<le> exponent (15 / 2 / a)" using x2(1) by (intro exponent_ge)
  then have eq: "\<bar>q - 15 / 2 / a\<bar> \<le> 15 / 2 / a / 2 ^ 53"
    unfolding q_def using x2(1) by (intro round_magnitude_error) simp_all
  have q_up: "q \<le> 15 / 2" unfolding q_def using x2 by (rule round_magnitude_le_15_2)
  have "q < 2 powi 1024" using q_up by simp
  then have tq: "to_number (15 / 2 / a) = Finite q"
    unfolding q_def using x2(1) by (intro to_number_finite)
  have "num_div (to_number (of_nat w)) (to_number (of_nat h)) = Finite a"
    using H ta by (simp add: tW tH)
  moreover have "num_div (Finite (15 / 2)) (Finite a) = Finite q"
    using a1 tq by simp
  ultimately have height:
    "num_div (Finite (15 / 2)) (num_div (to_number (of_nat w)) (to_number (of_nat h))) = Finite q"
    by simp
  define X where "X = 15 / 2 / a"
  have "0 < X" using x2(1) by (simp only: X_def)
  then have "X / 2 ^ 53 < X" by simp
  moreover have "\<bar>q - X\<bar> \<le> X / 2 ^ 53" using eq by (simp only: X_def)
  ultimately have q_pos: "0 < q" by linarith
  have A: "\<bar>a * H - W\<bar> \<le> e * W"
  proof -
    have "\<bar>a * H - W\<bar> = \<bar>a - W / H\<bar> * H" using H by (simp add: abs_mult_pos' field_simps)
    also have "\<dots> \<le> W / H / 2 ^ 53 * H" using ea H by (intro mult_right_mono) simp_all
    also have "\<dots> = e * W" using H by (simp add: e_def)
    finally show ?thesis .
  qed
  have B: "\<bar>q * a - 15 / 2\<bar> \<le> e * (15 / 2)"
  proof -
    have "\<bar>q * a - 15 / 2\<bar> = \<bar>q - 15 / 2 / a\<bar> * a" using a1 by (simp add: abs_mult_pos' field_simps)
    also have "\<dots> \<le> 15 / 2 / a / 2 ^ 53 * a" using eq a1 by (intro mult_right_mono) simp_all
    also have "\<dots> = e * (15 / 2)" using a1 by (simp add: e_def)
    finally show ?thesis .
  qed
  have e: "0 < e" "e \<le> 1 / 2" by (simp_all add: e_def)
  have "W - e * W \<le> a * H" using A by (simp add: abs_le_iff)
  moreover have "W / 2 \<le> W - e * W" using e W by (simp add: field_simps)
  ultimately have W2: "W \<le> 2 * (a * H)" by simp
  have a0: "0 < a" using a1 by simp
  have id: "a * (q * W - 15 / 2 * H) = W * (q * a - 15 / 2) - 15 / 2 * (a * H - W)"
    by (simp add: field_simps)
  have "a * \<bar>q * W - 15 / 2 * H\<bar> = \<bar>a * (q * W - 15 / 2 * H)\<bar>"
    using a0 by (simp only: abs_mult abs_of_pos)
  also have "\<dots> = \<bar>W * (q * a - 15 / 2) - 15 / 2 * (a * H - W)\<bar>"
    by (simp only: id)
  also have "\<dots> \<le> \<bar>W * (q * a - 15 / 2)\<bar> + \<bar>15 / 2 * (a * H - W)\<bar>"
    by (rule abs_triangle_ineq4)
  also have "\<dots> = W * \<bar>q * a - 15 / 2\<bar> + 15 / 2 * \<bar>a * H - W\<bar>"
    using W by (simp only: abs_mult abs_of_pos abs_numeral abs_divide)
  also have "\<dots> \<le> W * (e * (15 / 2)) + 15 / 2 * (e * W)"
    using A B W by (intro add_mono mult_left_mono) simp_all
  also have "\<dots> = 15 * e * W" by simp
  also have "\<dots> \<le> 15 * e * (2 * (a * H))"
    using W2 e by (intro mult_left_mono) simp_all
  also have "\<dots> = a * (15 / 2 * H / 2 ^ 51)" by (simp add: e_def)
  finally have "\<bar>q * W - 15 / 2 * H\<bar> \<le> 15 / 2 * H / 2 ^ 51"
    using a0 by (simp only: mult_le_cancel_left_pos [of a])
  then show ?thesis using height q_pos q_up by (auto simp: W_def H_def)
qed


lemma centred_vertically:
  assumes "0 < q" and "q \<le> 15 / 2"
  shows "\<exists>y. num_div (num_sub (Finite 11) (Finite q)) (Finite 2) = Finite y
           \<and> \<bar>y + q + y - 11\<bar> \<le> 1 / 2 ^ 48"
proof -
  define s where "s = 11 - q"
  define t where "t = round_magnitude s"
  define y where "y = round_magnitude (t / 2)"
  define c :: rat where "c = 1 / 2 ^ 53"
  have c: "0 < c" "c \<le> 1 / 4" "22 * c \<le> 1 / 2 ^ 48" by (simp_all add: c_def)
  have x: "7 / 2 \<le> s" "s \<le> 11" "0 < s" using assms by (simp_all add: s_def)
  have "2 powi 1 \<le> s" using x(1) by simp
  then have "1 \<le> exponent s" using x(3) by (intro exponent_ge)
  then have "\<bar>t - s\<bar> \<le> s / 2 ^ 53"
    unfolding t_def using x(3) by (intro round_magnitude_error) simp_all
  then have et: "\<bar>t - s\<bar> \<le> s * c" by (simp add: c_def)
  have sc: "s * c \<le> 11 * c" "s * c \<le> s * (1 / 4)"
    using x c by (simp_all add: mult_right_mono mult_left_mono)
  have t_up: "t \<le> 11"
    unfolding t_def using round_magnitude_mono [OF x(3) x(2)] by (simp only: round_magnitude_11)
  have t_lo: "2 \<le> t" using et sc x(1) by linarith
  have "t < 2 powi 1024" using t_up by simp
  then have tt: "to_number s = Finite t"
    unfolding t_def using x(3) by (intro to_number_finite)
  have h: "1 \<le> t / 2" "0 < t / 2" using t_lo by simp_all
  have "\<bar>y - t / 2\<bar> \<le> t / 2 / 2 ^ 53"
    unfolding y_def using h exponent_nonneg [OF h(1)] by (intro round_magnitude_error) simp_all
  then have ey: "\<bar>y - t / 2\<bar> \<le> t * c / 2" by (simp add: c_def)
  have tc: "t * c \<le> 11 * c" "t * c \<le> t * (1 / 4)"
    using t_up t_lo c by (simp_all add: mult_right_mono mult_left_mono)
  have "y \<le> 11" using ey tc t_up by linarith
  then have "y < 2 powi 1024" by simp
  then have ty: "to_number (t / 2) = Finite y"
    unfolding y_def using h(2) by (intro to_number_finite)
  have v: "num_div (num_sub (Finite 11) (Finite q)) (Finite 2) = Finite y"
    by (simp add: tt ty s_def [symmetric])
  have sq: "s = 11 - q" by (simp only: s_def)
  have "\<bar>y + q + y - 11\<bar> \<le> 22 * c"
    using ey et tc(1) sc(1) sq by linarith
  then have "\<bar>y + q + y - 11\<bar> \<le> 1 / 2 ^ 48" using c(3) by linarith
  then show ?thesis using v by blast
qed


text \<open>
  Claim C8. For an image wider than high, the width on the page is exactly 7.5 inches
  (8.5 minus two margins of 0.5), the height is the width divided by the aspect
  ratio, the horizontal offset is exactly 0.5 and leaves the same margin on the
  right, and the vertical offset is half of what the height leaves of the 11 inches:
  all in the arithmetic of doubles the code computes in. For pixel counts below 2 to
  the power 53 and a height that is not zero, the height is proportional to the
  image's within a relative error of 2 to the power -51, and twice the vertical offset
  plus the height differs from 11 inches by at most 2 to the power -48.
\<close>

theorem pdf_placement_landscape:
  assumes "h < w"
  shows "width_in (pdf_placement w h) = Finite 7.5
       \<and> width_in (pdf_placement w h) = num_sub (Finite 8.5) (num_mul (Finite 2) (Finite 0.5))
       \<and> height_in (pdf_placement w h)
           = num_div (width_in (pdf_placement w h))
               (num_div (to_number (of_nat w)) (to_number (of_nat h)))
       \<and> x_in (pdf_placement w h) = Finite 0.5
       \<and> x_in (pdf_placement w h)
           = num_div (num_sub (Finite 8.5) (width_in (pdf_placement w h))) (Finite 2)
       \<and> num_sub (num_sub (Finite 8.5) (width_in (pdf_placement w h))) (x_in (pdf_placement w h))
           = x_in (pdf_placement w h)
       \<and> y_in (pdf_placement w h)
           = num_div (num_sub (Finite 11) (height_in (pdf_placement w h))) (Finite 2)
       \<and> (0 < h \<and> w < 2 ^ 53 \<longrightarrow>
            (\<exists>q y. height_in (pdf_placement w h) = Finite q \<and> y_in (pdf_placement w h) = Finite y
               \<and> \<bar>q * of_nat w - 7.5 * of_nat h\<bar> \<le> 7.5 * of_nat h / 2 ^ 51
               \<and> \<bar>y + q + y - 11\<bar> \<le> 1 / 2 ^ 48))"
proof -
  note p = pdf_placement_wide [OF assms]
  have exact: "width_in (pdf_placement w h) = Finite 7.5
       \<and> width_in (pdf_placement w h) = num_sub (Finite 8.5) (num_mul (Finite 2) (Finite 0.5))
       \<and> height_in (pdf_placement w h)
           = num_div (width_in (pdf_placement w h))
               (num_div (to_number (of_nat w)) (to_number (of_nat h)))
       \<and> x_in (pdf_placement w h) = Finite 0.5
       \<and> x_in (pdf_placement w h)
           = num_div (num_sub (Finite 8.5) (width_in (pdf_placement w h))) (Finite 2)
       \<and> num_sub (num_sub (Finite 8.5) (width_in (pdf_placement w h))) (x_in (pdf_placement w h))
           = x_in (pdf_placement w h)
       \<and> y_in (pdf_placement w h)
           = num_div (num_sub (Finite 11) (height_in (pdf_placement w h))) (Finite 2)"
    unfolding p by (simp add: literal_values)
  have near: "\<exists>q y. height_in (pdf_placement w h) = Finite q \<and> y_in (pdf_placement w h) = Finite y
               \<and> \<bar>q * of_nat w - 7.5 * of_nat h\<bar> \<le> 7.5 * of_nat h / 2 ^ 51
               \<and> \<bar>y + q + y - 11\<bar> \<le> 1 / 2 ^ 48"
    if "0 < h" and "w < 2 ^ 53"
  proof -
    obtain q where q: "num_div (Finite (15 / 2)) (num_div (to_number (of_nat w)) (to_number (of_nat h)))
               = Finite q" "0 < q" "q \<le> 15 / 2"
        "\<bar>q * of_nat w - 15 / 2 * of_nat h\<bar> \<le> 15 / 2 * of_nat h / 2 ^ 51"
      using height_nearly_proportional [OF \<open>0 < h\<close> assms \<open>w < 2 ^ 53\<close>] by blast
    obtain y where y: "num_div (num_sub (Finite 11) (Finite q)) (Finite 2) = Finite y"
        "\<bar>y + q + y - 11\<bar> \<le> 1 / 2 ^ 48"
      using centred_vertically [OF q(2,3)] by blast
    have "height_in (pdf_placement w h) = Finite q" unfolding p using q(1) by simp
    moreover have "y_in (pdf_placement w h) = Finite y" unfolding p using q(1) y(1) by simp
    moreover have "\<bar>q * of_nat w - 7.5 * of_nat h\<bar> \<le> 7.5 * of_nat h / 2 ^ 51"
      using q(4) by simp
    ultimately show ?thesis using y(2) by blast
  qed
  show ?thesis using exact near by blast
qed


text \<open>
  Witness for C8: an image of 1200 by 1100 pixels, whose height on the page is
  6.875000000000001 inches, and one of 800 by 0 pixels.
\<close>

lemma tall_example:
  "pdf_placement 1200 1100
     = \<lparr>x_in = Finite (1 / 2), y_in = Finite (4644337115725823 / 2251799813685248),
        width_in = Finite (15 / 2), height_in = Finite (7740561859543041 / 1125899906842624)\<rparr>"
proof -
  have W: "to_number 1200 = Finite 1200"
    by (rule to_number_eval [where e = 10 and m = 5277655813324800]) (simp_all add: round_even_numerals)
  have H: "to_number 1100 = Finite 1100"
    by (rule to_number_eval [where e = 10 and m = 4837851162214400]) (simp_all add: round_even_numerals)
  have A: "to_number (12 / 11) = Finite (1228254443828317 / 1125899906842624)"
    by (rule to_number_eval [where e = 0 and m = 4913017775313268]) (simp_all add: round_even_numerals)
  have T: "to_number (8444249301319680 / 1228254443828317)
             = Finite (7740561859543041 / 1125899906842624)"
    by (rule to_number_eval [where e = 2 and m = 7740561859543041]) (simp_all add: round_even_numerals)
  have S: "to_number (4644337115725823 / 1125899906842624)
             = Finite (4644337115725823 / 1125899906842624)"
    by (rule to_number_eval [where e = 2 and m = 4644337115725823]) (simp_all add: round_even_numerals)
  have Y: "to_number (4644337115725823 / 2251799813685248)
             = Finite (4644337115725823 / 2251799813685248)"
    by (rule to_number_eval [where e = 1 and m = 4644337115725823]) (simp_all add: round_even_numerals)
  show ?thesis
    by (simp add: pdf_placement_def Let_def literal_values W H A T S Y)
qed

lemma flat_example:
  "pdf_placement 800 0
     = \<lparr>x_in = Finite (1 / 2), y_in = Finite (11 / 2), width_in = Finite (15 / 2),
        height_in = Finite 0\<rparr>"
proof -
  have W: "to_number 800 = Finite 800"
    by (rule to_number_eval [where e = 9 and m = "25 * 2 ^ 48"]) (simp_all add: round_even_numerals)
  have Z: "to_number 0 = Finite 0" by (simp add: to_number_def)
  have Y: "to_number (11 / 2) = Finite (11 / 2)"
    by (rule to_number_eval [where e = 2 and m = "11 * 2 ^ 49"]) (simp_all add: round_even_numerals)
  show ?thesis
    by (simp add: pdf_placement_def Let_def literal_values W Z Y)
qed


theorem pdf_placement_landscape_witness:
  "(1100::nat) < 1200 \<and> (0::nat) < 1100 \<and> (1200::nat) < 2 ^ 53
   \<and> pdf_placement 1200 1100
       = \<lparr>x_in = Finite (1 / 2), y_in = Finite (4644337115725823 / 2251799813685248),
          width_in = Finite (15 / 2), height_in = Finite (7740561859543041 / 1125899906842624)\<rparr>
   \<and> (0::nat) < 800
   \<and> pdf_placement 800 0
       = \<lparr>x_in = Finite (1 / 2), y_in = Finite (11 / 2), width_in = Finite (15 / 2),
          height_in = Finite 0\<rparr>"
proof -
  have "(1100::nat) < 1200" by simp
  from pdf_placement_landscape [OF this]
  have a: "width_in (pdf_placement 1200 1100) = Finite 7.5" by (rule conjunct1)
  have "(0::nat) < 800" by simp
  from pdf_placement_landscape [OF this]
  have b: "width_in (pdf_placement 800 0) = Finite 7.5" by (rule conjunct1)
  show ?thesis using a b tall_example flat_example by simp
qed

section \<open>One completion request at a time\<close>

lemma generateAIText_noop: "isGenerating st \<Longrightarrow> generateAIText openai t st = st"
  by (simp add: generateAIText_def)

lemma one_request_step: "one_request st \<Longrightarrow> one_request (step openai st e)"
proof (cases e)
  case (Generate t)
  assume "one_request st"
  then show ?thesis
    unfolding Generate by (auto simp: one_request_def generateAIText_def)
next
  case (Answer c)
  assume "one_request st"
  then show ?thesis
    unfolding Answer
    by (cases "in_flight st"; cases c) (auto simp: one_request_def generateAIText_resume_def Let_def)
qed (auto simp: one_request_def)

lemma one_request_run: "one_request (run openai evs)"
proof (induction evs rule: rev_induct)
  case Nil
  show ?case by (simp add: run_def one_request_def initial_view_def)
next
  case (snoc e evs)
  then show ?case using one_request_step [of "run openai evs" openai e] by (simp add: run_def)
qed


text \<open>
  Claim C9. While \<open>isGenerating\<close> is set, \<^verbatim>\<open>generateAIText\<close> changes nothing for either
  field: no request is added. After any sequence of events, a request in flight means
  that the call is such a no-op, and at most one request is in flight.
\<close>

theorem generateAIText_single_flight:
  "(isGenerating st \<longrightarrow> generateAIText openai t st = st)
   \<and> (in_flight (run openai evs) \<noteq> [] \<longrightarrow>
        generateAIText openai t (run openai evs) = run openai evs)
   \<and> length (in_flight (run openai evs)) \<le> 1"
  using one_request_run [of openai evs]
  by (auto simp: one_request_def generateAIText_noop)


text \<open>
  Witness for C9: after one request was sent, a second call changes nothing, and three
  calls in a row leave one request in flight.
\<close>

theorem generateAIText_single_flight_witness:
  "isGenerating (run True [Generate description])
   \<and> in_flight (run True [Generate description]) \<noteq> []
   \<and> generateAIText True purpose (run True [Generate description]) = run True [Generate description]
   \<and> length (in_flight (run True [Generate description, Generate purpose, Generate description])) = 1"
  using generateAIText_single_flight [of "run True [Generate description]" True purpose "[Generate description]"]
  by (simp add: run_def generateAIText_def initial_view_def)

end
